theory Spec2Isabelle
  imports Main
begin

section \<open>Python values\<close>

text \<open>
  The values the two transforms of \<^verbatim>\<open>lkml/interface.py\<close> handle. A dict is an association
  list in insertion order (\<^verbatim>\<open>items()\<close> iterates in that order); its keys are strings.
  \<open>Seq\<close> stands for a list or a tuple (the code tests \<^verbatim>\<open>isinstance(value, (list, tuple))\<close>
  everywhere), \<open>Other b\<close> for a value of any other type (None, a float, ...), of which
  the code uses the truth value \<open>b\<close> only. Python's \<^verbatim>\<open>bool\<close>, a subclass of \<^verbatim>\<open>int\<close>, is outside
  this model.
  Values are trees: an input in which one dict object occurs at two places is outside
  this model. Characters are the code points below 256.
\<close>

datatype pyval =
    Str string
  | Num int
  | Seq "pyval list"
  | Dict "(string \<times> pyval) list"
  | Other bool

type_synonym pydict = "(string \<times> pyval) list"

datatype error =
    TypeError            \<comment> \<open>\<^verbatim>\<open>raise TypeError("Value must be a string, list, tuple, or dict.")\<close>\<close>
  | AttributeError       \<comment> \<open>a method looked up on a value that has none of that name\<close>
  | ValueError           \<comment> \<open>\<^verbatim>\<open>[(key, val)] = value.items()\<close> on a dict that has not one item\<close>
  | IndexError           \<comment> \<open>\<^verbatim>\<open>keys[0]\<close> on an empty tuple\<close>
  | KeyError_multiple    \<comment> \<open>\<^verbatim>\<open>KeyError("Dictionary to update with cannot have multiple keys.")\<close>\<close>
  | KeyError_conflict    \<comment> \<open>\<^verbatim>\<open>KeyError('Key "..." already exists in tree ...')\<close>\<close>
  | Unmodelled_str       \<comment> \<open>\<^verbatim>\<open>str(v)\<close> of a list, dict or None is its repr, which is not modelled\<close>

text \<open>Python truthiness, for \<^verbatim>\<open>if name\<close> and \<^verbatim>\<open>if values\<close>.\<close>

fun truthy :: "pyval \<Rightarrow> bool" where
  "truthy (Str s) = (s \<noteq> [])"
| "truthy (Num i) = (i \<noteq> 0)"
| "truthy (Seq vs) = (vs \<noteq> [])"
| "truthy (Dict d) = (d \<noteq> [])"
| "truthy (Other b) = b"

text \<open>\<^verbatim>\<open>key in d.keys()\<close>, \<^verbatim>\<open>d[key] = v\<close> (an existing key keeps its place) and
  \<^verbatim>\<open>d.pop(key)\<close>.\<close>

definition has_key :: "pydict \<Rightarrow> string \<Rightarrow> bool" where
  "has_key d k = (k \<in> set (map fst d))"

fun dict_set :: "pydict \<Rightarrow> string \<Rightarrow> pyval \<Rightarrow> pydict" where
  "dict_set [] k v = [(k, v)]"
| "dict_set ((k', v') # d) k v = (if k' = k then (k, v) # d else (k', v') # dict_set d k v)"

definition dict_pop :: "pydict \<Rightarrow> string \<Rightarrow> pydict" where
  "dict_pop d k = filter (\<lambda>p. fst p \<noteq> k) d"

subsection \<open>Strings\<close>

text \<open>\<^verbatim>\<open>str.isspace\<close> on one code point below 256.\<close>

definition is_space :: "char \<Rightarrow> bool" where
  "is_space c = (of_char c \<in> set [9, 10, 11, 12, 13, 28, 29, 30, 31, 32, 133, 160 :: nat])"

definition lstrip :: "string \<Rightarrow> string" where
  "lstrip s = dropWhile is_space s"

definition rstrip :: "string \<Rightarrow> string" where
  "rstrip s = rev (dropWhile is_space (rev s))"

definition strip :: "string \<Rightarrow> string" where
  "strip s = rstrip (lstrip s)"

text \<open>\<^verbatim>\<open>s.rstrip("s")\<close>: every trailing \<^verbatim>\<open>s\<close> goes.\<close>

definition rstrip_s :: "string \<Rightarrow> string" where
  "rstrip_s s = rev (dropWhile (\<lambda>c. c = CHR ''s'') (rev s))"

text \<open>\<^verbatim>\<open>str(i)\<close> of an integer.\<close>

definition digit_char :: "nat \<Rightarrow> char" where
  "digit_char d = char_of (48 + d)"

fun nat_digits :: "nat \<Rightarrow> string" where
  "nat_digits n = (if n < 10 then [digit_char n] else nat_digits (n div 10) @ [digit_char (n mod 10)])"

definition str_of_int :: "int \<Rightarrow> string" where
  "str_of_int i = (if i < 0 then CHR ''-'' # nat_digits (nat (- i)) else nat_digits (nat i))"

section \<open>The key classification tables\<close>

text \<open>
  \<^verbatim>\<open>lkml.keys\<close> is imported by the source and is not part of it: the four tables and
  the two helpers are parameters of every function below.
\<close>

record keys =
  PLURAL_KEYS :: "string list"
  KEYS_WITH_NAME_FIELDS :: "string list"
  QUOTED_LITERAL_KEYS :: "string list"
  EXPR_BLOCK_KEYS :: "string list"
  pluralize :: "string \<Rightarrow> string"
  singularize :: "string \<Rightarrow> string"

text \<open>
  Modelled from the spec: tables for the concrete cases below, holding keys the spec
  names (\<^verbatim>\<open>dimension\<close> is repeatable and \<^verbatim>\<open>dimensions\<close> its plural, \<^verbatim>\<open>allowed_value\<close>
  and \<^verbatim>\<open>access_grant\<close> of the plural-key exception) and a few of each other kind.
\<close>

definition sample_keys :: keys where
  "sample_keys = \<lparr>
     PLURAL_KEYS = [''view'', ''dimension'', ''measure'', ''allowed_value'', ''access_grant''],
     KEYS_WITH_NAME_FIELDS = [''param'', ''option''],
     QUOTED_LITERAL_KEYS = [''label'', ''description''],
     EXPR_BLOCK_KEYS = [''sql'', ''html''],
     pluralize = (\<lambda>k. k @ ''s''),
     singularize = rstrip_s\<rparr>"

section \<open>The syntax tree\<close>

text \<open>
  \<^verbatim>\<open>lkml.tree\<close> is not part of the source either. Modelled from the spec: a token has a
  value, an optional prefix and an optional suffix, in three variants (plain, quoted,
  expression); braces and brackets are tokens of a fixed value that carry a prefix; a
  block has a type token, an optional name token, two braces and a container; a list a
  type token, two brackets, its items and the trailing-comma flag; a pair a type token and
  a value token; a document wraps one container. An argument the source leaves out is
  \<open>None\<close>. A token is a syntax node too (a list holds tokens or pairs).
\<close>

datatype token =
    SyntaxToken (tvalue: pyval) (tprefix: "string option") (tsuffix: "string option")
  | QuotedSyntaxToken (tvalue: pyval) (tprefix: "string option") (tsuffix: "string option")
  | ExpressionSyntaxToken (tvalue: pyval) (tprefix: "string option") (tsuffix: "string option")

datatype brace =
    LeftCurlyBrace (bprefix: "string option")
  | RightCurlyBrace (bprefix: "string option")
  | LeftBracket (bprefix: "string option")
  | RightBracket (bprefix: "string option")

datatype node =
    Token token
  | PairNode (ntype: token) (nvalue: token)
  | ListNode (ntype: token) (left_bracket: brace) (list_items: "node list")
      (right_bracket: brace) (trailing_comma: bool)
  | BlockNode (ntype: token) (left_brace: brace) (right_brace: brace)
      (block_name: "token option") (block_container: "node list")

datatype document = DocumentNode "node list"

section \<open>DictVisitor: from the tree to a mapping\<close>

text \<open>The visitor's field \<^verbatim>\<open>depth\<close>, and the warnings it has logged (the keys, in order).\<close>

record visitor =
  depth :: int
  warnings :: "string list"

definition visitor_init :: visitor where
  "visitor_init = \<lparr>depth = - 1, warnings = []\<rparr>"

text \<open>
  A call returns its outcome and the visitor as the call leaves it: an exception leaves
  the visitor's fields as they are when it is raised.
\<close>

type_synonym 'a outcome = "(error + 'a) \<times> visitor"

fun update_tree :: "keys \<Rightarrow> pydict \<Rightarrow> pyval \<Rightarrow> visitor \<Rightarrow> pydict outcome" where
  "update_tree K target (Dict update) s =
     (if length update > 1 then (Inl KeyError_multiple, s)
      else (case update of
          [] \<Rightarrow> (Inl IndexError, s)
        | (key, v) # _ \<Rightarrow>
            if key \<in> set (PLURAL_KEYS K) then
              (let plural_key = pluralize K key in
               if has_key target plural_key then
                 (case map_of target plural_key of
                    Some (Seq xs) \<Rightarrow> (Inr (dict_set target plural_key (Seq (xs @ [v]))), s)
                  | _ \<Rightarrow> (Inl AttributeError, s))
               else (Inr (dict_set target plural_key (Seq [v])), s))
            else if has_key target key then
              (if depth s = 0 then
                 (Inr (dict_set target key v), s\<lparr>warnings := warnings s @ [key]\<rparr>)
               else (Inl KeyError_conflict, s))
            else (Inr (dict_set target key v), s)))"
| "update_tree K target _ s = (Inl AttributeError, s)"

fun visit_token :: "token \<Rightarrow> error + string" where
  "visit_token t =
     (case tvalue t of
        Str s \<Rightarrow> Inr s
      | Num i \<Rightarrow> Inr (str_of_int i)
      | _ \<Rightarrow> Inl Unmodelled_str)"

function accept :: "keys \<Rightarrow> node \<Rightarrow> visitor \<Rightarrow> pyval outcome"
  and visit_container :: "keys \<Rightarrow> node list \<Rightarrow> visitor \<Rightarrow> pydict outcome"
  and container_loop :: "keys \<Rightarrow> node list \<Rightarrow> pydict \<Rightarrow> visitor \<Rightarrow> pydict outcome"
  and list_loop :: "keys \<Rightarrow> node list \<Rightarrow> visitor \<Rightarrow> (pyval list) outcome"
where
  "accept K (Token t) s =
     (case visit_token t of Inl e \<Rightarrow> (Inl e, s) | Inr x \<Rightarrow> (Inr (Str x), s))"
| "accept K (PairNode ty v) s =
     (case visit_token ty of
        Inl e \<Rightarrow> (Inl e, s)
      | Inr k \<Rightarrow>
          (case visit_token v of
             Inl e \<Rightarrow> (Inl e, s)
           | Inr x \<Rightarrow> (Inr (Dict [(k, Str x)]), s)))"
| "accept K (ListNode ty lb its rb tc) s =
     (case visit_token ty of
        Inl e \<Rightarrow> (Inl e, s)
      | Inr k \<Rightarrow>
          (case list_loop K its s of
             (Inl e, s') \<Rightarrow> (Inl e, s')
           | (Inr xs, s') \<Rightarrow> (Inr (Dict [(k, Seq xs)]), s')))"
| "accept K (BlockNode ty lb rb nm its) s =
     (case visit_container K its s of
        (Inl e, s') \<Rightarrow> (Inl e, s')
      | (Inr container_dict, s') \<Rightarrow>
          (case (case nm of
                   None \<Rightarrow> Inr container_dict
                 | Some t \<Rightarrow>
                     (case visit_token t of
                        Inl e \<Rightarrow> Inl e
                      | Inr x \<Rightarrow> Inr (dict_set container_dict ''name'' (Str x)))) of
             Inl e \<Rightarrow> (Inl e, s')
           | Inr container_dict' \<Rightarrow>
               (case visit_token ty of
                  Inl e \<Rightarrow> (Inl e, s')
                | Inr k \<Rightarrow> (Inr (Dict [(k, Dict container_dict')]), s'))))"
| "visit_container K its s =
     (if length its > 0 then
        (case container_loop K its [] (s\<lparr>depth := depth s + 1\<rparr>) of
           (Inl e, s') \<Rightarrow> (Inl e, s')
         | (Inr c, s') \<Rightarrow> (Inr c, s'\<lparr>depth := depth s' - 1\<rparr>))
      else (Inr [], s))"
| "container_loop K [] c s = (Inr c, s)"
| "container_loop K (item # rest) c s =
     (case accept K item s of
        (Inl e, s') \<Rightarrow> (Inl e, s')
      | (Inr u, s') \<Rightarrow>
          (case update_tree K c u s' of
             (Inl e, s'') \<Rightarrow> (Inl e, s'')
           | (Inr c', s'') \<Rightarrow> container_loop K rest c' s''))"
| "list_loop K [] s = (Inr [], s)"
| "list_loop K (item # rest) s =
     (case accept K item s of
        (Inl e, s') \<Rightarrow> (Inl e, s')
      | (Inr x, s') \<Rightarrow>
          (case list_loop K rest s' of
             (Inl e, s'') \<Rightarrow> (Inl e, s'')
           | (Inr xs, s'') \<Rightarrow> (Inr (x # xs), s'')))"
  by pat_completeness auto
termination
  by (relation "measure (\<lambda>x. case x of
        Inl (Inl (K, n, s)) \<Rightarrow> 2 * size n
      | Inl (Inr (K, its, s)) \<Rightarrow> 2 * size_list size its + 1
      | Inr (Inl (K, its, c, s)) \<Rightarrow> 2 * size_list size its
      | Inr (Inr (K, its, s)) \<Rightarrow> 2 * size_list size its)")
    auto

fun visit :: "keys \<Rightarrow> document \<Rightarrow> visitor \<Rightarrow> pydict outcome" where
  "visit K (DocumentNode its) s = visit_container K its s"

section \<open>DictParser: from a mapping to the tree\<close>

text \<open>
  The parser's fields. \<^verbatim>\<open>latest_node\<close> holds a node class or None; \<^verbatim>\<open>base_indent\<close> is
  the constant of two spaces.
\<close>

datatype node_class = DocumentNode_class | BlockNode_class | ListNode_class | PairNode_class

record parser =
  parent_key :: "string option"
  level :: int
  latest_node :: "node_class option"

definition parser_init :: parser where
  "parser_init = \<lparr>parent_key = None, level = 0, latest_node = Some DocumentNode_class\<rparr>"

definition base_indent :: string where
  "base_indent = replicate 2 CHR '' ''"

definition increase_level :: "parser \<Rightarrow> parser" where
  "increase_level s = s\<lparr>latest_node := None, level := level s + 1\<rparr>"

definition decrease_level :: "parser \<Rightarrow> parser" where
  "decrease_level s = s\<lparr>level := level s - 1\<rparr>"

definition indent :: "parser \<Rightarrow> string" where
  "indent s = (if level s > 0 then concat (replicate (nat (level s)) base_indent) else [])"

definition newline_indent :: "parser \<Rightarrow> string" where
  "newline_indent s = CHR 0x0A # indent s"

definition prefix :: "parser \<Rightarrow> string" where
  "prefix s =
     (if latest_node s = Some DocumentNode_class then []
      else if latest_node s = None then newline_indent s
      else if latest_node s = Some BlockNode_class then CHR 0x0A # newline_indent s
      else newline_indent s)"

text \<open>
  \<^verbatim>\<open>self.parent_key.rstrip("s")\<close> is only evaluated when the singular key is in the table
  and is \<^verbatim>\<open>allowed_value\<close> (\<^verbatim>\<open>and\<close> is short-circuit); on None it raises AttributeError.
\<close>

definition is_plural_key :: "keys \<Rightarrow> parser \<Rightarrow> string \<Rightarrow> error + bool" where
  "is_plural_key K s key =
     (let singular_key = singularize K key in
      if singular_key \<in> set (PLURAL_KEYS K) then
        (if singular_key = ''allowed_value'' then
           (case parent_key s of
              None \<Rightarrow> Inl AttributeError
            | Some p \<Rightarrow> Inr (\<not> (rstrip_s p = ''access_grant'')))
         else Inr True)
      else Inr False)"

text \<open>\<^verbatim>\<open>value.strip()\<close> exists on a string only.\<close>

definition parse_token ::
  "keys \<Rightarrow> string \<Rightarrow> pyval \<Rightarrow> bool \<Rightarrow> string option \<Rightarrow> string option \<Rightarrow> error + token" where
  "parse_token K key value force_quote pre suf =
     (if force_quote \<or> key \<in> set (QUOTED_LITERAL_KEYS K) then
        Inr (QuotedSyntaxToken value pre suf)
      else if key \<in> set (EXPR_BLOCK_KEYS K) then
        (case value of
           Str v \<Rightarrow> Inr (ExpressionSyntaxToken (Str (strip v @ '' '')) pre suf)
         | _ \<Rightarrow> Inl AttributeError)
      else Inr (SyntaxToken value pre suf))"

definition parse_pair :: "keys \<Rightarrow> string \<Rightarrow> pyval \<Rightarrow> parser \<Rightarrow> error + (node \<times> parser)" where
  "parse_pair K key value s =
     (let force_quote = (parent_key s = Some ''filters'') in
      case parse_token K key value force_quote None None of
        Inl e \<Rightarrow> Inl e
      | Inr value_syntax_token \<Rightarrow>
          Inr (PairNode (SyntaxToken (Str key) (Some (prefix s)) None) value_syntax_token,
               s\<lparr>latest_node := Some PairNode_class\<rparr>))"

text \<open>\<^verbatim>\<open>isinstance(v, (str, int))\<close>.\<close>

fun is_str_or_int :: "pyval \<Rightarrow> bool" where
  "is_str_or_int (Str _) = True"
| "is_str_or_int (Num _) = True"
| "is_str_or_int _ = False"

text \<open>
  The loop of the multiline layout. In pair mode \<^verbatim>\<open>[(key, val)] = value.items()\<close> rebinds
  \<^verbatim>\<open>key\<close>, which that loop reads in the other mode only.
\<close>

fun multiline_items ::
  "keys \<Rightarrow> string \<Rightarrow> bool \<Rightarrow> bool \<Rightarrow> pyval list \<Rightarrow> parser \<Rightarrow> error + (node list \<times> parser)" where
  "multiline_items K key force_quote pair_mode [] s = Inr ([], s)"
| "multiline_items K key force_quote pair_mode (value # rest) s =
     (case (if pair_mode then
              (case value of
                 Dict [(k, val)] \<Rightarrow> parse_pair K k val s
               | Dict _ \<Rightarrow> Inl ValueError
               | _ \<Rightarrow> Inl AttributeError)
            else
              (case parse_token K key value force_quote (Some (newline_indent s)) None of
                 Inl e \<Rightarrow> Inl e
               | Inr t \<Rightarrow> Inr (Token t, s))) of
        Inl e \<Rightarrow> Inl e
      | Inr (item, s') \<Rightarrow>
          (case multiline_items K key force_quote pair_mode rest s' of
             Inl e \<Rightarrow> Inl e
           | Inr (its, s'') \<Rightarrow> Inr (item # its, s'')))"

text \<open>The loop of the inline layout, \<^verbatim>\<open>i\<close> the index of \<^verbatim>\<open>enumerate\<close>.\<close>

fun inline_items :: "keys \<Rightarrow> string \<Rightarrow> bool \<Rightarrow> nat \<Rightarrow> pyval list \<Rightarrow> error + node list" where
  "inline_items K key force_quote i [] = Inr []"
| "inline_items K key force_quote i (value # rest) =
     (case parse_token K key value force_quote (if i = 0 then None else Some '' '') None of
        Inl e \<Rightarrow> Inl e
      | Inr t \<Rightarrow>
          (case inline_items K key force_quote (Suc i) rest of
             Inl e \<Rightarrow> Inl e
           | Inr its \<Rightarrow> Inr (Token t # its)))"

definition parse_list :: "keys \<Rightarrow> string \<Rightarrow> pyval list \<Rightarrow> parser \<Rightarrow> error + (node \<times> parser)" where
  "parse_list K key values s =
     (let force_quote = (key = ''suggestions'');
          s1 = s\<lparr>parent_key := Some key\<rparr>;
          type_token = SyntaxToken (Str key) (Some (prefix s1)) None;
          pair_mode = (case values of [] \<Rightarrow> False | v # _ \<Rightarrow> \<not> is_str_or_int v)
      in
      if length values \<ge> 5 \<or> pair_mode then
        (case multiline_items K key force_quote pair_mode values (increase_level s1) of
           Inl e \<Rightarrow> Inl e
         | Inr (its, s2) \<Rightarrow>
             (let s3 = decrease_level s2 in
              Inr (ListNode type_token (LeftBracket None) its
                     (RightBracket (Some (newline_indent s3))) True,
                   s3\<lparr>latest_node := Some ListNode_class\<rparr>)))
      else
        (case inline_items K key force_quote 0 values of
           Inl e \<Rightarrow> Inl e
         | Inr its \<Rightarrow>
             Inr (ListNode type_token (LeftBracket None) its (RightBracket None) False,
                  s1\<lparr>latest_node := Some ListNode_class\<rparr>)))"

text \<open>
  \<^verbatim>\<open>parse_any\<close> returns a node or (from \<^verbatim>\<open>expand_list\<close>) a list of nodes, and
  \<^verbatim>\<open>flatten\<close> splices the lists.
\<close>

datatype parsed = One node | Many "node list"

fun flatten :: "parsed list \<Rightarrow> node list" where
  "flatten [] = []"
| "flatten (One n # rest) = n # flatten rest"
| "flatten (Many ns # rest) = ns @ flatten rest"

text \<open>
  \<^verbatim>\<open>value.pop("name")\<close> changes the caller's dict, so every function that walks the input
  returns, beside its result and the parser, the input as the call leaves it.
\<close>

function parse_any :: "keys \<Rightarrow> string \<Rightarrow> pyval \<Rightarrow> parser \<Rightarrow> error + (parsed \<times> pyval \<times> parser)"
  and expand_list :: "keys \<Rightarrow> string \<Rightarrow> pyval list \<Rightarrow> parser \<Rightarrow> error + (node list \<times> pyval list \<times> parser)"
  and expand_loop :: "keys \<Rightarrow> string \<Rightarrow> pyval list \<Rightarrow> parser \<Rightarrow> error + (parsed list \<times> pyval list \<times> parser)"
  and parse_block :: "keys \<Rightarrow> string \<Rightarrow> pydict \<Rightarrow> pyval option \<Rightarrow> parser \<Rightarrow> error + (node \<times> pydict \<times> parser)"
  and parse_items :: "keys \<Rightarrow> pydict \<Rightarrow> parser \<Rightarrow> error + (parsed list \<times> pydict \<times> parser)"
where
  "parse_any K key (Str v) s =
     (case parse_pair K key (Str v) s of
        Inl e \<Rightarrow> Inl e
      | Inr (n, s') \<Rightarrow> Inr (One n, Str v, s'))"
| "parse_any K key (Seq vs) s =
     (case is_plural_key K s key of
        Inl e \<Rightarrow> Inl e
      | Inr True \<Rightarrow>
          (case expand_list K key vs s of
             Inl e \<Rightarrow> Inl e
           | Inr (ns, vs', s') \<Rightarrow> Inr (Many ns, Seq vs', s'))
      | Inr False \<Rightarrow>
          (case parse_list K key vs s of
             Inl e \<Rightarrow> Inl e
           | Inr (n, s') \<Rightarrow> Inr (One n, Seq vs, s')))"
| "parse_any K key (Dict d) s =
     (let (name, d1) =
            (if key \<in> set (KEYS_WITH_NAME_FIELDS K) \<or> \<not> has_key d ''name'' then (None, d)
             else (map_of d ''name'', dict_pop d ''name''))
      in case parse_block K key d1 name s of
           Inl e \<Rightarrow> Inl e
         | Inr (n, d2, s') \<Rightarrow> Inr (One n, Dict d2, s'))"
| "parse_any K key (Num i) s = Inl TypeError"
| "parse_any K key (Other b) s = Inl TypeError"
| "expand_list K key vs s =
     (let singular_key = singularize K key in
      case expand_loop K singular_key vs s of
        Inl e \<Rightarrow> Inl e
      | Inr (nodes, vs', s') \<Rightarrow> Inr (flatten nodes, vs', s'))"
| "expand_loop K singular_key [] s = Inr ([], [], s)"
| "expand_loop K singular_key (v # vs) s =
     (case parse_any K singular_key v s of
        Inl e \<Rightarrow> Inl e
      | Inr (p, v', s') \<Rightarrow>
          (case expand_loop K singular_key vs s' of
             Inl e \<Rightarrow> Inl e
           | Inr (ps, vs', s'') \<Rightarrow> Inr (p # ps, v' # vs', s'')))"
| "parse_block K key its name s =
     (let s1 = s\<lparr>parent_key := Some key\<rparr>;
          latest_node_at_this_level = latest_node s1
      in case parse_items K its (increase_level s1) of
           Inl e \<Rightarrow> Inl e
         | Inr (nodes, its', s2) \<Rightarrow>
             (let s3 = (decrease_level s2)\<lparr>latest_node := latest_node_at_this_level\<rparr>;
                  container = flatten nodes;
                  pre = (if latest_node s3 \<noteq> None \<and> latest_node s3 \<noteq> Some DocumentNode_class
                         then CHR 0x0A # newline_indent s3 else prefix s3);
                  named = (case name of None \<Rightarrow> False | Some n \<Rightarrow> truthy n)
              in Inr (BlockNode (SyntaxToken (Str key) (Some pre) None)
                        (LeftCurlyBrace (Some (if named then '' '' else [])))
                        (RightCurlyBrace (Some (if container \<noteq> [] then newline_indent s3 else [])))
                        (if named then map_option (\<lambda>n. SyntaxToken n None None) name else None)
                        container,
                      its',
                      s3\<lparr>latest_node := Some BlockNode_class\<rparr>)))"
| "parse_items K [] s = Inr ([], [], s)"
| "parse_items K ((key, value) # rest) s =
     (case parse_any K key value s of
        Inl e \<Rightarrow> Inl e
      | Inr (p, value', s') \<Rightarrow>
          (case parse_items K rest s' of
             Inl e \<Rightarrow> Inl e
           | Inr (ps, rest', s'') \<Rightarrow> Inr (p # ps, (key, value') # rest', s'')))"
  by pat_completeness auto

termination
proof -
  have pop: "size_list f (dict_pop d k) \<le> size_list f d" for f :: "string \<times> pyval \<Rightarrow> nat" and d k
    by (induction d) (auto simp: dict_pop_def)
  show ?thesis
    by (relation "measure (\<lambda>x. case x of
          Inl (Inl (K, key, v, s)) \<Rightarrow> 3 * size v
        | Inl (Inr (K, key, vs, s)) \<Rightarrow> 3 * size_list size vs + 2
        | Inr (Inl (K, key, vs, s)) \<Rightarrow> 3 * size_list size vs + 1
        | Inr (Inr (Inl (K, key, d, name, s))) \<Rightarrow> 3 * size_list (size_prod (\<lambda>_. 0) size) d + 2
        | Inr (Inr (Inr (K, d, s))) \<Rightarrow> 3 * size_list (size_prod (\<lambda>_. 0) size) d + 1)")
      (auto simp: le_imp_less_Suc pop split: if_splits)
qed

definition parse :: "keys \<Rightarrow> pydict \<Rightarrow> parser \<Rightarrow> error + (document \<times> pydict \<times> parser)" where
  "parse K obj s =
     (case parse_items K obj s of
        Inl e \<Rightarrow> Inl e
      | Inr (nodes, obj', s') \<Rightarrow> Inr (DocumentNode (flatten nodes), obj', s'))"


section \<open>Values built without an assignment to the parent key\<close>


section \<open>What the builder may change in its input\<close>

text \<open>
  \<open>names_popped K key v v'\<close>: the value \<open>v'\<close> is \<open>v\<close> except that a mapping reached by
  \<^verbatim>\<open>parse_any\<close> under a key that is not in \<^verbatim>\<open>KEYS_WITH_NAME_FIELDS\<close> has lost its \<^verbatim>\<open>name\<close>
  entry. \<^verbatim>\<open>parse_any\<close> reaches the values of a mapping and, under a key whose singular
  form is repeatable, the elements of a sequence (for \<^verbatim>\<open>allowed_value\<close> this depends on
  the parent key, so both outcomes are admitted). \<open>no_name v\<close>: no mapping inside \<open>v\<close> has
  a \<^verbatim>\<open>name\<close> entry.
\<close>

function names_popped :: "keys \<Rightarrow> string \<Rightarrow> pyval \<Rightarrow> pyval \<Rightarrow> bool"
  and names_popped_list :: "keys \<Rightarrow> string \<Rightarrow> pyval list \<Rightarrow> pyval list \<Rightarrow> bool"
  and names_popped_dict :: "keys \<Rightarrow> pydict \<Rightarrow> pydict \<Rightarrow> bool"
where
  "names_popped K key (Str x) v' = (v' = Str x)"
| "names_popped K key (Num i) v' = (v' = Num i)"
| "names_popped K key (Other b) v' = (v' = Other b)"
| "names_popped K key (Seq vs) v' =
     (case v' of
        Seq vs' \<Rightarrow>
          (if singularize K key \<in> set (PLURAL_KEYS K) then
             (if singularize K key = ''allowed_value''
              then vs' = vs \<or> names_popped_list K (singularize K key) vs vs'
              else names_popped_list K (singularize K key) vs vs')
           else vs' = vs)
      | _ \<Rightarrow> False)"
| "names_popped K key (Dict d) v' =
     (case v' of
        Dict d' \<Rightarrow>
          names_popped_dict K
            (if key \<in> set (KEYS_WITH_NAME_FIELDS K) \<or> \<not> has_key d ''name'' then d
             else dict_pop d ''name'') d'
      | _ \<Rightarrow> False)"
| "names_popped_list K key [] vs' = (vs' = [])"
| "names_popped_list K key (v # vs) vs' =
     (case vs' of
        [] \<Rightarrow> False
      | v' # rest' \<Rightarrow> names_popped K key v v' \<and> names_popped_list K key vs rest')"
| "names_popped_dict K [] d' = (d' = [])"
| "names_popped_dict K ((key, v) # rest) d' =
     (case d' of
        [] \<Rightarrow> False
      | (key', v') # rest' \<Rightarrow>
          key' = key \<and> names_popped K key v v' \<and> names_popped_dict K rest rest')"
  by pat_completeness auto

termination
proof -
  have pop: "size_list f (dict_pop d k) \<le> size_list f d" for f :: "string \<times> pyval \<Rightarrow> nat" and d k
    by (induction d) (auto simp: dict_pop_def)
  show ?thesis
    by (relation "measure (\<lambda>x. case x of
          Inl (K, key, v, v') \<Rightarrow> 2 * size v
        | Inr (Inl (K, key, vs, vs')) \<Rightarrow> 2 * size_list size vs + 1
        | Inr (Inr (K, d, d')) \<Rightarrow> 2 * size_list (size_prod (\<lambda>_. 0) size) d + 1)")
      (auto simp: le_imp_less_Suc pop split: if_splits)
qed

fun no_name :: "pyval \<Rightarrow> bool" where
  "no_name (Dict d) = (\<not> has_key d ''name'' \<and> list_all (\<lambda>(k, v). no_name v) d)"
| "no_name (Seq vs) = list_all no_name vs"
| "no_name _ = True"

section \<open>The mapping a round trip gives\<close>










section \<open>Facts about the dict operations\<close>

lemma map_of_dict_set: "map_of (dict_set d k v) = (map_of d)(k \<mapsto> v)"
  by (induction d) (auto simp: fun_eq_iff)

lemma keys_dict_set: "has_key d k \<Longrightarrow> map fst (dict_set d k v) = map fst d"
  by (induction d) (fastforce simp: has_key_def)+

section \<open>The merge of a key that is already there\<close>

text \<open>
  C4. In \<^verbatim>\<open>update_tree\<close>, when the single key of the update is not a repeatable key and
  is in the target already: at depth 0 the merge succeeds, the later value replaces the
  earlier one (the key keeps its place, the other keys their values) and a warning is
  logged; at any depth from 1 on the merge raises the conflict KeyError, and the loop of
  \<^verbatim>\<open>visit_container\<close> that called it stops with that error, whatever items remain.
\<close>

theorem update_tree_existing_key:
  assumes "key \<notin> set (PLURAL_KEYS K)" and "has_key target key"
  shows "(depth s = 0 \<longrightarrow>
            update_tree K target (Dict [(key, v)]) s =
              (Inr (dict_set target key v), s\<lparr>warnings := warnings s @ [key]\<rparr>)
            \<and> map_of (dict_set target key v) = (map_of target)(key \<mapsto> v)
            \<and> map fst (dict_set target key v) = map fst target)
       \<and> (depth s \<ge> 1 \<longrightarrow>
            update_tree K target (Dict [(key, v)]) s = (Inl KeyError_conflict, s)
            \<and> (\<forall>item rest s0. accept K item s0 = (Inr (Dict [(key, v)]), s) \<longrightarrow>
                  container_loop K (item # rest) target s0 = (Inl KeyError_conflict, s)))"
  using assms by (auto simp: map_of_dict_set keys_dict_set)

theorem update_tree_existing_key_witness:
  "update_tree sample_keys [(''label'', Str ''a'')] (Dict [(''label'', Str ''b'')])
       \<lparr>depth = 0, warnings = []\<rparr>
     = (Inr [(''label'', Str ''b'')], \<lparr>depth = 0, warnings = [''label'']\<rparr>)
   \<and> update_tree sample_keys [(''label'', Str ''a'')] (Dict [(''label'', Str ''b'')])
       \<lparr>depth = 1, warnings = []\<rparr>
     = (Inl KeyError_conflict, \<lparr>depth = 1, warnings = []\<rparr>)"
  using update_tree_existing_key [of "''label''" sample_keys "[(''label'', Str ''a'')]"
      "\<lparr>depth = 0, warnings = []\<rparr>" "Str ''b''"]
    update_tree_existing_key [of "''label''" sample_keys "[(''label'', Str ''a'')]"
      "\<lparr>depth = 1, warnings = []\<rparr>" "Str ''b''"]
  by (simp add: sample_keys_def has_key_def)

section \<open>Facts about the string operations\<close>

lemma rstrip_decomp: "\<exists>b. w = rstrip w @ b \<and> list_all is_space b"
proof -
  have "rev w = takeWhile is_space (rev w) @ dropWhile is_space (rev w)" by simp
  then have "w = rev (dropWhile is_space (rev w)) @ rev (takeWhile is_space (rev w))"
    by (metis rev_append rev_rev_ident)
  moreover have "list_all is_space (rev (takeWhile is_space (rev w)))"
    by (simp add: list_all_iff) (meson set_takeWhileD)
  ultimately show ?thesis unfolding rstrip_def by blast
qed

lemma strip_decomp: "\<exists>a b. v = a @ strip v @ b \<and> list_all is_space a \<and> list_all is_space b"
proof -
  obtain b where b: "lstrip v = rstrip (lstrip v) @ b" "list_all is_space b"
    using rstrip_decomp by blast
  have "v = takeWhile is_space v @ lstrip v" by (simp add: lstrip_def)
  then have "v = takeWhile is_space v @ strip v @ b" using b(1) by (simp add: strip_def)
  moreover have "list_all is_space (takeWhile is_space v)"
    by (simp add: list_all_iff) (meson set_takeWhileD)
  ultimately show ?thesis using b(2) by blast
qed

lemma strip_ends:
  assumes "strip v \<noteq> []"
  shows "\<not> is_space (hd (strip v)) \<and> \<not> is_space (last (strip v))"
proof -
  let ?w = "lstrip v"
  obtain b where b: "?w = rstrip ?w @ b" using rstrip_decomp by blast
  have ne: "rstrip ?w \<noteq> []" using assms by (simp add: strip_def)
  then have "?w \<noteq> []" by (auto simp: rstrip_def)
  then have "\<not> is_space (hd ?w)" unfolding lstrip_def by (rule hd_dropWhile)
  moreover have "hd ?w = hd (rstrip ?w)" using b ne by (metis hd_append2)
  ultimately have h: "\<not> is_space (hd (strip v))" by (simp add: strip_def)
  have "dropWhile is_space (rev ?w) \<noteq> []" using ne by (simp add: rstrip_def)
  then have "\<not> is_space (hd (dropWhile is_space (rev ?w)))" by (rule hd_dropWhile)
  moreover have "last (rstrip ?w) = hd (dropWhile is_space (rev ?w))"
    unfolding rstrip_def by (simp add: last_rev)
  ultimately have "\<not> is_space (last (strip v))" by (simp add: strip_def)
  with h show ?thesis by simp
qed

section \<open>Expression tokens\<close>

text \<open>
  C6, as the code has it. For a key of \<^verbatim>\<open>EXPR_BLOCK_KEYS\<close> that is not a quoted-literal key,
  and when quoting is not forced, the token made from the string \<open>v\<close> is an expression
  token whose value is \<open>v\<close> stripped of its whitespace at both ends, with one space
  appended: \<open>strip v\<close> is what is left of \<open>v\<close> between a leading and a trailing run of
  whitespace, and neither starts nor ends with whitespace. Below a parent key other than
  \<^verbatim>\<open>filters\<close> this is the value token of the pair \<^verbatim>\<open>parse_any\<close> builds.
\<close>

theorem parse_token_expression:
  assumes "key \<in> set (EXPR_BLOCK_KEYS K)" and "key \<notin> set (QUOTED_LITERAL_KEYS K)"
  shows "parse_token K key (Str v) False pre suf
           = Inr (ExpressionSyntaxToken (Str (strip v @ '' '')) pre suf)
       \<and> (\<exists>a b. v = a @ strip v @ b \<and> list_all is_space a \<and> list_all is_space b)
       \<and> (strip v \<noteq> [] \<longrightarrow> \<not> is_space (hd (strip v)) \<and> \<not> is_space (last (strip v)))
       \<and> (parent_key s \<noteq> Some ''filters'' \<longrightarrow>
            parse_any K key (Str v) s
              = Inr (One (PairNode (SyntaxToken (Str key) (Some (prefix s)) None)
                            (ExpressionSyntaxToken (Str (strip v @ '' '')) None None)),
                     Str v, s\<lparr>latest_node := Some PairNode_class\<rparr>))"
  using assms strip_decomp [of v] strip_ends [of v]
  by (simp add: parse_token_def parse_pair_def)

theorem parse_token_expression_witness:
  "parse_token sample_keys ''sql'' (Str ''  ${TABLE}.id  '') False None None
     = Inr (ExpressionSyntaxToken (Str ''${TABLE}.id '') None None)"
  using parse_token_expression [where key = "''sql''" and K = sample_keys
      and v = "''  ${TABLE}.id  ''" and s = parser_init and pre = None and suf = None]
  by (simp add: sample_keys_def strip_def lstrip_def rstrip_def is_space_def)

text \<open>
  The leading whitespace of the value is not kept: from \<^verbatim>\<open>" x"\<close> the token holds
  \<^verbatim>\<open>"x "\<close>, where stripping the trailing whitespace only would give \<^verbatim>\<open>" x "\<close>.
\<close>

theorem expression_leading_whitespace_counterexample:
  "parse_token sample_keys ''sql'' (Str '' x'') False None None
     = Inr (ExpressionSyntaxToken (Str ''x '') None None)
   \<and> rstrip '' x'' @ '' '' = '' x ''
   \<and> ''x '' \<noteq> '' x ''"
  by (simp add: parse_token_def sample_keys_def strip_def lstrip_def rstrip_def is_space_def)

section \<open>What the parser's fields are after a call\<close>

lemma parse_pair_state:
  "parse_pair K key v s = Inr (n, s') \<Longrightarrow> s' = s\<lparr>latest_node := Some PairNode_class\<rparr>"
  by (auto simp: parse_pair_def Let_def split: sum.splits)

lemma multiline_items_level:
  "multiline_items K key fq pm vs s = Inr (its, s') \<Longrightarrow>
     level s' = level s \<and> parent_key s' = parent_key s"
proof (induction vs arbitrary: s its s')
  case Nil
  then show ?case by simp
next
  case (Cons v vs)
  then show ?case
    by (auto split: sum.splits if_splits pyval.splits list.splits prod.splits
        dest!: parse_pair_state)
qed

lemma parse_list_level:
  "parse_list K key vs s = Inr (n, s') \<Longrightarrow> level s' = level s \<and> parent_key s' = Some key"
  by (auto simp: parse_list_def Let_def increase_level_def decrease_level_def
      split: sum.splits if_splits dest!: multiline_items_level)

lemma parse_block_unfold:
  "parse_block K key its nm s =
     (case parse_items K its (increase_level (s\<lparr>parent_key := Some key\<rparr>)) of
        Inl e \<Rightarrow> Inl e
      | Inr (nodes, its', s2) \<Rightarrow>
          Inr (BlockNode
                 (SyntaxToken (Str key)
                    (Some (if latest_node s \<noteq> None \<and> latest_node s \<noteq> Some DocumentNode_class
                           then CHR 0x0A # newline_indent (decrease_level s2)
                           else prefix ((decrease_level s2)\<lparr>latest_node := latest_node s\<rparr>)))
                    None)
                 (LeftCurlyBrace (Some (if (case nm of None \<Rightarrow> False | Some n \<Rightarrow> truthy n)
                                        then '' '' else [])))
                 (RightCurlyBrace (Some (if flatten nodes \<noteq> []
                                         then newline_indent (decrease_level s2) else [])))
                 (if (case nm of None \<Rightarrow> False | Some n \<Rightarrow> truthy n)
                  then map_option (\<lambda>n. SyntaxToken n None None) nm else None)
                 (flatten nodes),
               its',
               (decrease_level s2)\<lparr>latest_node := Some BlockNode_class\<rparr>))"
  by (simp add: Let_def newline_indent_def indent_def split: sum.splits)

lemma parser_induct:
  assumes pair: "\<And>K key v s n s'. parse_pair K key (Str v) s = Inr (n, s') \<Longrightarrow>
      P1 K key (Str v) s (One n) (Str v) s'"
    and plural: "\<And>K key vs s ns vs' s'. is_plural_key K s key = Inr True \<Longrightarrow>
      expand_list K key vs s = Inr (ns, vs', s') \<Longrightarrow> P2 K key vs s ns vs' s' \<Longrightarrow>
      P1 K key (Seq vs) s (Many ns) (Seq vs') s'"
    and list: "\<And>K key vs s n s'. is_plural_key K s key = Inr False \<Longrightarrow>
      parse_list K key vs s = Inr (n, s') \<Longrightarrow> P1 K key (Seq vs) s (One n) (Seq vs) s'"
    and block: "\<And>K key d s nm d1 n d2 s'.
      (nm, d1) = (if key \<in> set (KEYS_WITH_NAME_FIELDS K) \<or> \<not> has_key d ''name'' then (None, d)
                  else (map_of d ''name'', dict_pop d ''name'')) \<Longrightarrow>
      parse_block K key d1 nm s = Inr (n, d2, s') \<Longrightarrow> P4 K key d1 nm s n d2 s' \<Longrightarrow>
      P1 K key (Dict d) s (One n) (Dict d2) s'"
    and expand: "\<And>K key vs s ps vs' s'.
      expand_loop K (singularize K key) vs s = Inr (ps, vs', s') \<Longrightarrow>
      P3 K (singularize K key) vs s ps vs' s' \<Longrightarrow> P2 K key vs s (flatten ps) vs' s'"
    and loop_nil: "\<And>K sk s. P3 K sk [] s [] [] s"
    and loop_cons: "\<And>K sk v vs s p v' s1 ps vs' s2.
      parse_any K sk v s = Inr (p, v', s1) \<Longrightarrow> P1 K sk v s p v' s1 \<Longrightarrow>
      expand_loop K sk vs s1 = Inr (ps, vs', s2) \<Longrightarrow> P3 K sk vs s1 ps vs' s2 \<Longrightarrow>
      P3 K sk (v # vs) s (p # ps) (v' # vs') s2"
    and body: "\<And>K key its nm s ps its' s2 n s'.
      parse_items K its (increase_level (s\<lparr>parent_key := Some key\<rparr>)) = Inr (ps, its', s2) \<Longrightarrow>
      P5 K its (increase_level (s\<lparr>parent_key := Some key\<rparr>)) ps its' s2 \<Longrightarrow>
      parse_block K key its nm s = Inr (n, its', s') \<Longrightarrow>
      P4 K key its nm s n its' s'"
    and items_nil: "\<And>K s. P5 K [] s [] [] s"
    and items_cons: "\<And>K key v rest s p v' s1 ps rest' s2.
      parse_any K key v s = Inr (p, v', s1) \<Longrightarrow> P1 K key v s p v' s1 \<Longrightarrow>
      parse_items K rest s1 = Inr (ps, rest', s2) \<Longrightarrow> P5 K rest s1 ps rest' s2 \<Longrightarrow>
      P5 K ((key, v) # rest) s (p # ps) ((key, v') # rest') s2"
  shows "\<forall>p v' s'. parse_any K key v s = Inr (p, v', s') \<longrightarrow> P1 K key v s p v' s'"
    and "\<forall>ns vs' s'. expand_list K key2 vs s2 = Inr (ns, vs', s') \<longrightarrow> P2 K key2 vs s2 ns vs' s'"
    and "\<forall>ps vs' s'. expand_loop K key3 vs3 s3 = Inr (ps, vs', s') \<longrightarrow> P3 K key3 vs3 s3 ps vs' s'"
    and "\<forall>n d' s'. parse_block K key4 d nm s4 = Inr (n, d', s') \<longrightarrow> P4 K key4 d nm s4 n d' s'"
    and "\<forall>ps d' s'. parse_items K d5 s5 = Inr (ps, d', s') \<longrightarrow> P5 K d5 s5 ps d' s'"
proof (induction K key v s and K key2 vs s2 and K key3 vs3 s3 and K key4 d nm s4 and K d5 s5
    rule: parse_any_expand_list_expand_loop_parse_block_parse_items.induct)
  case (1 K key v s)
  show ?case
    by (auto simp del: expand_list.simps parse_block.simps split: sum.splits intro: pair)
next
  case (2 K key vs s)
  show ?case
  proof (intro allI impI)
    fix p v' s'
    assume r: "parse_any K key (Seq vs) s = Inr (p, v', s')"
    show "P1 K key (Seq vs) s p v' s'"
    proof (cases "is_plural_key K s key")
      case (Inl e)
      with r show ?thesis by (simp del: expand_list.simps parse_block.simps)
    next
      case (Inr b)
      show ?thesis
      proof (cases b)
        case True
        with Inr have ip: "is_plural_key K s key = Inr True" by simp
        with r obtain ns vs' where e: "expand_list K key vs s = Inr (ns, vs', s')"
          and pv: "p = Many ns" "v' = Seq vs'"
          by (auto simp del: expand_list.simps parse_block.simps split: sum.splits)
        from "2.IH" [OF ip refl] e have "P2 K key vs s ns vs' s'" by blast
        with ip e pv show ?thesis by (simp del: expand_list.simps add: plural)
      next
        case False
        with Inr have ip: "is_plural_key K s key = Inr False" by simp
        with r obtain n where e: "parse_list K key vs s = Inr (n, s')"
          and pv: "p = One n" "v' = Seq vs"
          by (auto simp del: expand_list.simps parse_block.simps split: sum.splits)
        with ip show ?thesis by (simp add: list)
      qed
    qed
  qed
next
  case (3 K key d s)
  show ?case
  proof (intro allI impI)
    fix p v' s'
    assume r: "parse_any K key (Dict d) s = Inr (p, v', s')"
    obtain nm d1 where nd: "(nm, d1) =
        (if key \<in> set (KEYS_WITH_NAME_FIELDS K) \<or> \<not> has_key d ''name'' then (None, d)
         else (map_of d ''name'', dict_pop d ''name''))"
      by (metis surj_pair)
    from r nd [symmetric] obtain n d2 where e: "parse_block K key d1 nm s = Inr (n, d2, s')"
      and pv: "p = One n" "v' = Dict d2"
      by (auto simp del: expand_list.simps parse_block.simps split: sum.splits)
    from "3.IH" [OF refl nd] e have "P4 K key d1 nm s n d2 s'" by blast
    with nd e pv show "P1 K key (Dict d) s p v' s'" by (simp del: parse_block.simps add: block)
  qed
next
  case (4 K key i s)
  show ?case by simp
next
  case (5 K key b s)
  show ?case by simp
next
  case (6 K key vs s)
  show ?case
  proof (intro allI impI)
    fix ns vs' s'
    assume r: "expand_list K key vs s = Inr (ns, vs', s')"
    then obtain ps where e: "expand_loop K (singularize K key) vs s = Inr (ps, vs', s')"
      and ns: "ns = flatten ps"
      by (auto simp: Let_def split: sum.splits)
    from "6.IH" [OF refl] e have "P3 K (singularize K key) vs s ps vs' s'" by blast
    with e ns show "P2 K key vs s ns vs' s'" by (simp add: expand)
  qed
next
  case (7 K singular_key s)
  show ?case by (simp add: loop_nil)
next
  case (8 K sk v vs s)
  show ?case
  proof (intro allI impI)
    fix qs ws s'
    assume r: "expand_loop K sk (v # vs) s = Inr (qs, ws, s')"
    then obtain p v' s1 ps vs' where a: "parse_any K sk v s = Inr (p, v', s1)"
      and b: "expand_loop K sk vs s1 = Inr (ps, vs', s')"
      and q: "qs = p # ps" "ws = v' # vs'"
      by (auto simp del: expand_list.simps parse_block.simps split: sum.splits)
    from "8.IH"(1) a have p1: "P1 K sk v s p v' s1" by blast
    from "8.IH"(2) [OF a refl refl] b have "P3 K sk vs s1 ps vs' s'" by blast
    with a b p1 q show "P3 K sk (v # vs) s qs ws s'" by (simp add: loop_cons)
  qed
next
  case (9 K key its name s)
  show ?case
  proof (intro allI impI)
    fix n d' s'
    assume r: "parse_block K key its name s = Inr (n, d', s')"
    then obtain ps s2 where
      e: "parse_items K its (increase_level (s\<lparr>parent_key := Some key\<rparr>)) = Inr (ps, d', s2)"
      unfolding parse_block_unfold by (auto split: sum.splits)
    from "9.IH" [OF refl refl] e
    have p5: "P5 K its (increase_level (s\<lparr>parent_key := Some key\<rparr>)) ps d' s2" by blast
    from e p5 r show "P4 K key its name s n d' s'" by (rule body)
  qed
next
  case (10 K s)
  show ?case by (simp add: items_nil)
next
  case (11 K key v rest s)
  show ?case
  proof (intro allI impI)
    fix qs ws s'
    assume r: "parse_items K ((key, v) # rest) s = Inr (qs, ws, s')"
    then obtain p v' s1 ps rest' where a: "parse_any K key v s = Inr (p, v', s1)"
      and b: "parse_items K rest s1 = Inr (ps, rest', s')"
      and q: "qs = p # ps" "ws = (key, v') # rest'"
      by (auto simp del: expand_list.simps parse_block.simps split: sum.splits)
    from "11.IH"(1) a have p1: "P1 K key v s p v' s1" by blast
    from "11.IH"(2) [OF a refl refl] b have "P5 K rest s1 ps rest' s'" by blast
    with a b p1 q show "P5 K ((key, v) # rest) s qs ws s'" by (simp add: items_cons)
  qed
qed

lemma level_preserved:
  shows "\<forall>p v' s'. parse_any K key v s = Inr (p, v', s') \<longrightarrow> level s' = level s"
    and "\<forall>ns vs' s'. expand_list K key2 vs s2 = Inr (ns, vs', s') \<longrightarrow> level s' = level s2"
    and "\<forall>ps vs' s'. expand_loop K key3 vs3 s3 = Inr (ps, vs', s') \<longrightarrow> level s' = level s3"
    and "\<forall>n d' s'. parse_block K key4 d nm s4 = Inr (n, d', s') \<longrightarrow> level s' = level s4"
    and "\<forall>ps d' s'. parse_items K d5 s5 = Inr (ps, d', s') \<longrightarrow> level s' = level s5"
proof -
  have pair: "\<And>K key v s n s'. parse_pair K key (Str v) s = Inr (n, s') \<Longrightarrow> level s' = level s"
    by (auto dest: parse_pair_state)
  have list: "\<And>K key vs s n s'. parse_list K key vs s = Inr (n, s') \<Longrightarrow> level s' = level s"
    by (auto dest: parse_list_level)
  have body: "\<And>K key its nm s ps its' s2 n s'.
      parse_items K its (increase_level (s\<lparr>parent_key := Some key\<rparr>)) = Inr (ps, its', s2) \<Longrightarrow>
      level s2 = level (increase_level (s\<lparr>parent_key := Some key\<rparr>)) \<Longrightarrow>
      parse_block K key its nm s = Inr (n, its', s') \<Longrightarrow> level s' = level s"
    unfolding parse_block_unfold by (auto simp: increase_level_def decrease_level_def)
  note R = parser_induct [where ?P1.0 = "\<lambda>K key v s p v' s'. level s' = level s"
      and ?P2.0 = "\<lambda>K key v s p v' s'. level s' = level s"
      and ?P3.0 = "\<lambda>K key v s p v' s'. level s' = level s"
      and ?P4.0 = "\<lambda>K key d nm s n d' s'. level s' = level s"
      and ?P5.0 = "\<lambda>K d s ps d' s'. level s' = level s"]
  show "\<forall>p v' s'. parse_any K key v s = Inr (p, v', s') \<longrightarrow> level s' = level s"
    by (rule R(1); (assumption | erule pair | erule list | (erule body; assumption)
        | simp del: expand_list.simps parse_block.simps))
  show "\<forall>ns vs' s'. expand_list K key2 vs s2 = Inr (ns, vs', s') \<longrightarrow> level s' = level s2"
    by (rule R(2); (assumption | erule pair | erule list | (erule body; assumption)
        | simp del: expand_list.simps parse_block.simps))
  show "\<forall>ps vs' s'. expand_loop K key3 vs3 s3 = Inr (ps, vs', s') \<longrightarrow> level s' = level s3"
    by (rule R(3); (assumption | erule pair | erule list | (erule body; assumption)
        | simp del: expand_list.simps parse_block.simps))
  show "\<forall>n d' s'. parse_block K key4 d nm s4 = Inr (n, d', s') \<longrightarrow> level s' = level s4"
    by (rule R(4); (assumption | erule pair | erule list | (erule body; assumption)
        | simp del: expand_list.simps parse_block.simps))
  show "\<forall>ps d' s'. parse_items K d5 s5 = Inr (ps, d', s') \<longrightarrow> level s' = level s5"
    by (rule R(5); (assumption | erule pair | erule list | (erule body; assumption)
        | simp del: expand_list.simps parse_block.simps))
qed

lemma newline_indent_level: "level s = level t \<Longrightarrow> newline_indent s = newline_indent t"
  by (simp add: newline_indent_def indent_def)

lemma parse_block_result:
  assumes "parse_block K key its nm s = Inr (n, its', s')"
  shows "\<exists>nodes s2. parse_items K its (increase_level (s\<lparr>parent_key := Some key\<rparr>)) = Inr (nodes, its', s2)
     \<and> level s' = level s
     \<and> latest_node s' = Some BlockNode_class
     \<and> parent_key s' = parent_key s2
     \<and> block_container n = flatten nodes
     \<and> ntype n = SyntaxToken (Str key)
          (Some (case latest_node s of
                   None \<Rightarrow> newline_indent s
                 | Some DocumentNode_class \<Rightarrow> []
                 | Some _ \<Rightarrow> CHR 0x0A # newline_indent s)) None
     \<and> right_brace n = RightCurlyBrace (Some (if flatten nodes \<noteq> [] then newline_indent s else []))"
proof -
  from assms obtain nodes s2 where
    it: "parse_items K its (increase_level (s\<lparr>parent_key := Some key\<rparr>)) = Inr (nodes, its', s2)"
    unfolding parse_block_unfold by (auto split: sum.splits)
  from level_preserved(5) it have "level s2 = level s + 1"
    by (fastforce simp: increase_level_def)
  then have lv: "level (decrease_level s2) = level s"
    by (simp add: decrease_level_def)
  have ni: "newline_indent (decrease_level s2) = newline_indent s"
    by (rule newline_indent_level) (rule lv)
  have ni2: "newline_indent ((decrease_level s2)\<lparr>latest_node := l\<rparr>) = newline_indent s" for l
    by (rule newline_indent_level) (simp add: lv)
  from assms it have n: "n = BlockNode
                 (SyntaxToken (Str key)
                    (Some (if latest_node s \<noteq> None \<and> latest_node s \<noteq> Some DocumentNode_class
                           then CHR 0x0A # newline_indent (decrease_level s2)
                           else prefix ((decrease_level s2)\<lparr>latest_node := latest_node s\<rparr>)))
                    None)
                 (LeftCurlyBrace (Some (if (case nm of None \<Rightarrow> False | Some n \<Rightarrow> truthy n)
                                        then '' '' else [])))
                 (RightCurlyBrace (Some (if flatten nodes \<noteq> []
                                         then newline_indent (decrease_level s2) else [])))
                 (if (case nm of None \<Rightarrow> False | Some n \<Rightarrow> truthy n)
                  then map_option (\<lambda>n. SyntaxToken n None None) nm else None)
                 (flatten nodes)"
    and s': "s' = (decrease_level s2)\<lparr>latest_node := Some BlockNode_class\<rparr>"
    unfolding parse_block_unfold by simp_all
  have pre: "(if latest_node s \<noteq> None \<and> latest_node s \<noteq> Some DocumentNode_class
              then CHR 0x0A # newline_indent (decrease_level s2)
              else prefix ((decrease_level s2)\<lparr>latest_node := latest_node s\<rparr>))
           = (case latest_node s of
                   None \<Rightarrow> newline_indent s
                 | Some DocumentNode_class \<Rightarrow> []
                 | Some _ \<Rightarrow> CHR 0x0A # newline_indent s)"
    by (simp add: prefix_def ni ni2 split: option.splits node_class.splits)
  have ty: "ntype n = SyntaxToken (Str key)
          (Some (case latest_node s of
                   None \<Rightarrow> newline_indent s
                 | Some DocumentNode_class \<Rightarrow> []
                 | Some _ \<Rightarrow> CHR 0x0A # newline_indent s)) None"
    by (simp only: n node.sel pre)
  have rb: "right_brace n = RightCurlyBrace (Some (if flatten nodes \<noteq> [] then newline_indent s else []))"
    by (simp only: n node.sel ni)
  have bc: "block_container n = flatten nodes"
    by (simp only: n node.sel)
  have st: "level s' = level s" "latest_node s' = Some BlockNode_class" "parent_key s' = parent_key s2"
    using lv by (simp_all add: s' decrease_level_def)
  from it ty rb bc st show ?thesis by blast
qed

section \<open>The prefix of a block\<close>

text \<open>
  C7, as the code has it. The type token of a block that \<^verbatim>\<open>parse_block\<close> builds has, as its
  prefix, a blank line (one more newline) before the newline and indent whenever a sibling
  was emitted before it at that level, be it a block, a list or a pair; the first item of
  a freshly opened container gets the newline and indent only, and the first item of the
  document the empty prefix.
\<close>

theorem parse_block_prefix:
  assumes "parse_block K key its nm s = Inr (n, its', s')"
  shows "tprefix (ntype n) =
           Some (case latest_node s of
                   None \<Rightarrow> newline_indent s
                 | Some DocumentNode_class \<Rightarrow> []
                 | Some BlockNode_class \<Rightarrow> CHR 0x0A # newline_indent s
                 | Some ListNode_class \<Rightarrow> CHR 0x0A # newline_indent s
                 | Some PairNode_class \<Rightarrow> CHR 0x0A # newline_indent s)"
  using parse_block_result [OF assms] by (auto split: option.splits node_class.splits)

theorem parse_block_prefix_witness:
  "tprefix (ntype (fst (projr (parse_block sample_keys ''b'' [] None
       \<lparr>parent_key = None, level = 0, latest_node = Some ListNode_class\<rparr>))))
     = Some [CHR 0x0A, CHR 0x0A]"
proof -
  have run: "parse_block sample_keys ''b'' [] None
       \<lparr>parent_key = None, level = 0, latest_node = Some ListNode_class\<rparr>
     = Inr (BlockNode (SyntaxToken (Str ''b'') (Some [CHR 0x0A, CHR 0x0A]) None)
              (LeftCurlyBrace (Some [])) (RightCurlyBrace (Some [])) None [],
            [], \<lparr>parent_key = Some ''b'', level = 0, latest_node = Some BlockNode_class\<rparr>)"
    by code_simp
  show ?thesis
    using parse_block_prefix [OF run] unfolding run
    by (simp add: newline_indent_def indent_def)
qed

text \<open>
  A block that follows a pair gets the blank line too: its prefix is two newlines, where a
  single newline and indent would be one.
\<close>

theorem block_after_pair_counterexample:
  "parse sample_keys [(''a'', Str ''x''), (''b'', Dict [])] parser_init
     = Inr (DocumentNode
              [PairNode (SyntaxToken (Str ''a'') (Some []) None) (SyntaxToken (Str ''x'') None None),
               BlockNode (SyntaxToken (Str ''b'') (Some [CHR 0x0A, CHR 0x0A]) None)
                 (LeftCurlyBrace (Some [])) (RightCurlyBrace (Some [])) None []],
            [(''a'', Str ''x''), (''b'', Dict [])],
            \<lparr>parent_key = Some ''b'', level = 0, latest_node = Some BlockNode_class\<rparr>)
   \<and> newline_indent parser_init = [CHR 0x0A]"
  by code_simp

section \<open>The parent key after a block\<close>

text \<open>
  C2. \<^verbatim>\<open>parse_block\<close> restores \<^verbatim>\<open>level\<close> and \<^verbatim>\<open>latest_node\<close> (lemmas \<open>level_preserved\<close>
  and \<open>parse_block_result\<close>) and assigns \<^verbatim>\<open>parent_key\<close> without ever restoring it: called
  inside a \<^verbatim>\<open>view\<close> for a \<^verbatim>\<open>dimension\<close>, it returns with \<^verbatim>\<open>parent_key\<close> at
  \<^verbatim>\<open>dimension\<close>.
\<close>

theorem parent_key_after_parse_block:
  "parse_block sample_keys ''dimension'' [(''type'', Str ''string'')] None
       \<lparr>parent_key = Some ''view'', level = 1, latest_node = None\<rparr>
     = Inr (BlockNode (SyntaxToken (Str ''dimension'') (Some [CHR 0x0A, CHR '' '', CHR '' '']) None)
              (LeftCurlyBrace (Some []))
              (RightCurlyBrace (Some [CHR 0x0A, CHR '' '', CHR '' '']))
              None
              [PairNode (SyntaxToken (Str ''type'')
                           (Some [CHR 0x0A, CHR '' '', CHR '' '', CHR '' '', CHR '' '']) None)
                 (SyntaxToken (Str ''string'') None None)],
            [(''type'', Str ''string'')],
            \<lparr>parent_key = Some ''dimension'', level = 1, latest_node = Some BlockNode_class\<rparr>)"
  by code_simp

text \<open>
  C3. The pair \<^verbatim>\<open>type: count\<close> of the document is quoted when it comes after the block
  \<^verbatim>\<open>filters\<close> (whose key is still in \<^verbatim>\<open>parent_key\<close>) and plain when it comes before it.
\<close>

theorem quoting_depends_on_sibling_order:
  "parse sample_keys [(''filters'', Dict [(''x'', Str ''y'')]), (''type'', Str ''count'')] parser_init
     = Inr (DocumentNode
              [BlockNode (SyntaxToken (Str ''filters'') (Some []) None)
                 (LeftCurlyBrace (Some [])) (RightCurlyBrace (Some [CHR 0x0A])) None
                 [PairNode (SyntaxToken (Str ''x'') (Some [CHR 0x0A, CHR '' '', CHR '' '']) None)
                    (QuotedSyntaxToken (Str ''y'') None None)],
               PairNode (SyntaxToken (Str ''type'') (Some [CHR 0x0A, CHR 0x0A]) None)
                 (QuotedSyntaxToken (Str ''count'') None None)],
            [(''filters'', Dict [(''x'', Str ''y'')]), (''type'', Str ''count'')],
            \<lparr>parent_key = Some ''filters'', level = 0, latest_node = Some PairNode_class\<rparr>)
   \<and> parse sample_keys [(''type'', Str ''count''), (''filters'', Dict [(''x'', Str ''y'')])] parser_init
     = Inr (DocumentNode
              [PairNode (SyntaxToken (Str ''type'') (Some []) None)
                 (SyntaxToken (Str ''count'') None None),
               BlockNode (SyntaxToken (Str ''filters'') (Some [CHR 0x0A, CHR 0x0A]) None)
                 (LeftCurlyBrace (Some [])) (RightCurlyBrace (Some [CHR 0x0A])) None
                 [PairNode (SyntaxToken (Str ''x'') (Some [CHR 0x0A, CHR '' '', CHR '' '']) None)
                    (QuotedSyntaxToken (Str ''y'') None None)]],
            [(''type'', Str ''count''), (''filters'', Dict [(''x'', Str ''y'')])],
            \<lparr>parent_key = Some ''filters'', level = 0, latest_node = Some BlockNode_class\<rparr>)"
  by code_simp

section \<open>The layout of a list\<close>

lemma parse_token_scalar:
  assumes "(\<exists>x. v = Str x) \<or> ((\<exists>i. v = Num i) \<and>
      (fq \<or> key \<in> set (QUOTED_LITERAL_KEYS K) \<or> key \<notin> set (EXPR_BLOCK_KEYS K)))"
  shows "\<exists>t. parse_token K key v fq pre suf = Inr t \<and> tprefix t = pre \<and> tsuffix t = suf"
  using assms by (auto simp: parse_token_def)

lemma inline_items_scalars:
  assumes "\<forall>v\<in>set vs. (\<exists>x. v = Str x) \<or> ((\<exists>i. v = Num i) \<and>
      (fq \<or> key \<in> set (QUOTED_LITERAL_KEYS K) \<or> key \<notin> set (EXPR_BLOCK_KEYS K)))"
  shows "\<exists>ts. inline_items K key fq i vs = Inr (map Token ts)
    \<and> map tprefix ts = map (\<lambda>j. if j = 0 then None else Some '' '') [i..<i + length vs]
    \<and> list_all2 (\<lambda>v t. parse_token K key v fq (tprefix t) None = Inr t) vs ts"
  using assms
proof (induction vs arbitrary: i)
  case Nil
  then show ?case by simp
next
  case (Cons v vs)
  from Cons.prems obtain t where
    t: "parse_token K key v fq (if i = 0 then None else Some '' '') None = Inr t"
       "tprefix t = (if i = 0 then None else Some '' '')"
    using parse_token_scalar [of v fq key K "if i = 0 then None else Some '' ''" None]
    by auto
  from Cons.IH [of "Suc i"] Cons.prems obtain ts where
    ts: "inline_items K key fq (Suc i) vs = Inr (map Token ts)"
        "map tprefix ts = map (\<lambda>j. if j = 0 then None else Some '' '') [Suc i..<Suc i + length vs]"
        "list_all2 (\<lambda>v t. parse_token K key v fq (tprefix t) None = Inr t) vs ts"
    by auto
  have "inline_items K key fq i (v # vs) = Inr (map Token (t # ts))"
    using t(1) ts(1) by simp
  moreover note this
  have u: "[i..<i + length (v # vs)] = i # [Suc i..<Suc i + length vs]"
  proof -
    have e: "Suc i + length vs = i + length (v # vs)" by simp
    show ?thesis unfolding e by (rule upt_conv_Cons) simp
  qed
  have "map tprefix (t # ts)
      = map (\<lambda>j. if j = 0 then None else Some '' '') [i..<i + length (v # vs)]"
    by (simp only: u list.map t(2) ts(2))
  moreover have "list_all2 (\<lambda>v t. parse_token K key v fq (tprefix t) None = Inr t) (v # vs) (t # ts)"
    using t ts(3) by simp
  ultimately show ?case by blast
qed

lemma multiline_items_scalars:
  assumes "\<forall>v\<in>set vs. (\<exists>x. v = Str x) \<or> ((\<exists>i. v = Num i) \<and>
      (fq \<or> key \<in> set (QUOTED_LITERAL_KEYS K) \<or> key \<notin> set (EXPR_BLOCK_KEYS K)))"
  shows "\<exists>ts. multiline_items K key fq False vs s = Inr (map Token ts, s)
    \<and> map tprefix ts = replicate (length vs) (Some (newline_indent s))
    \<and> list_all2 (\<lambda>v t. parse_token K key v fq (tprefix t) None = Inr t) vs ts"
  using assms
proof (induction vs)
  case Nil
  then show ?case by simp
next
  case (Cons v vs)
  from Cons.prems obtain t where
    t: "parse_token K key v fq (Some (newline_indent s)) None = Inr t"
       "tprefix t = Some (newline_indent s)"
    using parse_token_scalar [of v fq key K "Some (newline_indent s)" None] by auto
  from Cons.IH Cons.prems obtain ts where
    ts: "multiline_items K key fq False vs s = Inr (map Token ts, s)"
        "map tprefix ts = replicate (length vs) (Some (newline_indent s))"
        "list_all2 (\<lambda>v t. parse_token K key v fq (tprefix t) None = Inr t) vs ts"
    by auto
  have "multiline_items K key fq False (v # vs) s = Inr (map Token (t # ts), s)"
    using t(1) ts(1) by simp
  moreover have "map tprefix (t # ts) = replicate (length (v # vs)) (Some (newline_indent s))"
    using t(2) ts(2) by simp
  moreover have "list_all2 (\<lambda>v t. parse_token K key v fq (tprefix t) None = Inr t) (v # vs) (t # ts)"
    using t ts(3) by simp
  ultimately show ?case by blast
qed

lemma prefix_fresh:
  "latest_node s = None \<or> latest_node s = Some PairNode_class \<Longrightarrow> prefix s = newline_indent s"
  by (auto simp: prefix_def)

lemma parse_token_value:
  assumes "parse_token K key v fq pre suf = Inr t"
    and "fq \<or> key \<in> set (QUOTED_LITERAL_KEYS K) \<or> key \<notin> set (EXPR_BLOCK_KEYS K)"
  shows "tvalue t = v"
  using assms by (auto simp: parse_token_def split: if_splits)

lemma token_values:
  assumes "list_all2 (\<lambda>v t. parse_token K key v fq (tprefix t) None = Inr t) vs ts"
    and "fq \<or> key \<in> set (QUOTED_LITERAL_KEYS K) \<or> key \<notin> set (EXPR_BLOCK_KEYS K)"
  shows "map tvalue ts = vs"
  using assms(1)
proof (induction vs ts rule: list_all2_induct)
  case Nil
  show ?case by simp
next
  case (Cons v vs t ts)
  from parse_token_value [OF Cons.hyps(1) assms(2)] Cons.IH show ?case by simp
qed

lemma multiline_items_pairs:
  assumes "multiline_items K key fq True vs s = Inr (its, s')"
    and "latest_node s = None \<or> latest_node s = Some PairNode_class"
  shows "list_all2 (\<lambda>v i. \<exists>k x tok. v = Dict [(k, x)]
      \<and> parse_token K k x (parent_key s = Some ''filters'') None None = Inr tok
      \<and> i = PairNode (SyntaxToken (Str k) (Some (newline_indent s)) None) tok) vs its"
  using assms
proof (induction vs arbitrary: s its s')
  case Nil
  then show ?case by simp
next
  case (Cons v vs)
  from Cons.prems(1) obtain item s1 rest where
    a: "(case v of Dict [(k, val)] \<Rightarrow> parse_pair K k val s
         | Dict _ \<Rightarrow> Inl ValueError | _ \<Rightarrow> Inl AttributeError) = Inr (item, s1)"
    and b: "multiline_items K key fq True vs s1 = Inr (rest, s')"
    and c: "its = item # rest"
    by (auto split: sum.splits)
  from a obtain k val where v: "v = Dict [(k, val)]" and pp: "parse_pair K k val s = Inr (item, s1)"
    by (auto split: pyval.splits list.splits prod.splits)
  then have s1: "s1 = s\<lparr>latest_node := Some PairNode_class\<rparr>" by (simp add: parse_pair_state)
  from pp obtain t where
    t: "parse_token K k val (parent_key s = Some ''filters'') None None = Inr t"
    and item: "item = PairNode (SyntaxToken (Str k) (Some (prefix s)) None) t"
    by (auto simp: parse_pair_def Let_def split: sum.splits)
  have ni: "newline_indent s1 = newline_indent s"
    by (rule newline_indent_level) (simp add: s1)
  have ln: "latest_node s1 = None \<or> latest_node s1 = Some PairNode_class" by (simp add: s1)
  have pk: "parent_key s1 = parent_key s" by (simp add: s1)
  from Cons.IH [OF b ln]
  have "list_all2 (\<lambda>v i. \<exists>k x tok. v = Dict [(k, x)]
      \<and> parse_token K k x (parent_key s = Some ''filters'') None None = Inr tok
      \<and> i = PairNode (SyntaxToken (Str k) (Some (newline_indent s)) None) tok) vs rest"
    by (simp only: ni pk)
  moreover have "\<exists>k x tok. v = Dict [(k, x)]
      \<and> parse_token K k x (parent_key s = Some ''filters'') None None = Inr tok
      \<and> item = PairNode (SyntaxToken (Str k) (Some (newline_indent s)) None) tok"
    using v t item prefix_fresh [OF Cons.prems(2)] by simp
  ultimately show ?case unfolding c by simp
qed

lemma multiline_items_pairs_total:
  assumes "\<forall>v\<in>set vs. \<exists>k x. v = Dict [(k, Str x)]"
  shows "\<exists>its s'. multiline_items K key fq True vs s = Inr (its, s')"
  using assms
proof (induction vs arbitrary: s)
  case Nil
  then show ?case by simp
next
  case (Cons v vs)
  from Cons.prems obtain k x where v: "v = Dict [(k, Str x)]" by auto
  obtain t where "parse_token K k (Str x) (parent_key s = Some ''filters'') None None = Inr t"
    using parse_token_scalar [of "Str x"] by blast
  then obtain item s1 where pp: "parse_pair K k (Str x) s = Inr (item, s1)"
    by (simp add: parse_pair_def)
  from Cons.IH [of s1] Cons.prems obtain its s' where
    "multiline_items K key fq True vs s1 = Inr (its, s')" by auto
  with v pp show ?case by simp
qed

lemma parse_list_latest_node:
  "parse_list K key vs s = Inr (n, s') \<Longrightarrow> latest_node s' = Some ListNode_class"
  by (auto simp: parse_list_def Let_def split: sum.splits if_splits)

text \<open>
  C5, as the code has it. For a key that is not a plural key, \<^verbatim>\<open>parse_any\<close> builds a list
  node. The scalar elements it builds from are strings, and integers where the token is
  not an expression token (the key is not an expression key, or is a quoted literal key
  or \<^verbatim>\<open>suggestions\<close>). Every item is the token \<^verbatim>\<open>parse_token\<close> makes of its element, in
  order; outside the expression case the tokens' values are the elements themselves.
  From fewer than five such elements, so from four, the list is inline: the first token
  has no prefix, the others a space, the closing bracket has no prefix, \<^verbatim>\<open>trailing_comma\<close>
  is false and the level is unchanged. From five or more it is multiline: every token
  has the newline and the indent of the next level as its prefix, the closing bracket the
  newline and the indent of the list's own level, and \<^verbatim>\<open>trailing_comma\<close> is true. A list
  whose first element is not a string or integer is built in pair mode and, whenever it
  is built, is multiline in the same way, its items the pairs of its one-entry mappings
  in order; it is built whenever every element is a mapping of one string value.
\<close>

theorem list_layout_threshold:
  assumes np: "is_plural_key K s key = Inr False"
  shows
    "((length vs < 5 \<and> (\<forall>v\<in>set vs. (\<exists>x. v = Str x) \<or> ((\<exists>i. v = Num i) \<and>
          (key = ''suggestions'' \<or> key \<in> set (QUOTED_LITERAL_KEYS K) \<or> key \<notin> set (EXPR_BLOCK_KEYS K))))) \<longrightarrow>
        (\<exists>ts. parse_any K key (Seq vs) s =
           Inr (One (ListNode (SyntaxToken (Str key) (Some (prefix s)) None) (LeftBracket None)
                       (map Token ts) (RightBracket None) False),
                Seq vs, s\<lparr>parent_key := Some key, latest_node := Some ListNode_class\<rparr>)
          \<and> map tprefix ts = map (\<lambda>j. if j = 0 then None else Some '' '') [0..<length vs]
          \<and> list_all2 (\<lambda>v t. parse_token K key v (key = ''suggestions'') (tprefix t) None = Inr t) vs ts
          \<and> (key = ''suggestions'' \<or> key \<in> set (QUOTED_LITERAL_KEYS K) \<or> key \<notin> set (EXPR_BLOCK_KEYS K)
               \<longrightarrow> map tvalue ts = vs)))
   \<and> ((5 \<le> length vs \<and> (\<forall>v\<in>set vs. (\<exists>x. v = Str x) \<or> ((\<exists>i. v = Num i) \<and>
          (key = ''suggestions'' \<or> key \<in> set (QUOTED_LITERAL_KEYS K) \<or> key \<notin> set (EXPR_BLOCK_KEYS K))))) \<longrightarrow>
        (\<exists>ts. parse_any K key (Seq vs) s =
           Inr (One (ListNode (SyntaxToken (Str key) (Some (prefix s)) None) (LeftBracket None)
                       (map Token ts) (RightBracket (Some (newline_indent s))) True),
                Seq vs, s\<lparr>parent_key := Some key, latest_node := Some ListNode_class\<rparr>)
          \<and> map tprefix ts
              = replicate (length vs) (Some (newline_indent (s\<lparr>level := level s + 1\<rparr>)))
          \<and> list_all2 (\<lambda>v t. parse_token K key v (key = ''suggestions'') (tprefix t) None = Inr t) vs ts
          \<and> (key = ''suggestions'' \<or> key \<in> set (QUOTED_LITERAL_KEYS K) \<or> key \<notin> set (EXPR_BLOCK_KEYS K)
               \<longrightarrow> map tvalue ts = vs)))
   \<and> ((vs \<noteq> [] \<and> \<not> is_str_or_int (hd vs)) \<longrightarrow>
        (\<forall>p v' s'. parse_any K key (Seq vs) s = Inr (p, v', s') \<longrightarrow>
           (\<exists>its. p = One (ListNode (SyntaxToken (Str key) (Some (prefix s)) None) (LeftBracket None)
                              its (RightBracket (Some (newline_indent s))) True)
              \<and> list_all2 (\<lambda>v i. \<exists>k x tok. v = Dict [(k, x)]
                    \<and> parse_token K k x (key = ''filters'') None None = Inr tok
                    \<and> i = PairNode (SyntaxToken (Str k)
                            (Some (newline_indent (s\<lparr>level := level s + 1\<rparr>))) None) tok) vs its
              \<and> v' = Seq vs
              \<and> s' = s\<lparr>parent_key := Some key, latest_node := Some ListNode_class\<rparr>)))
   \<and> ((vs \<noteq> [] \<and> (\<forall>v\<in>set vs. \<exists>k x. v = Dict [(k, Str x)])) \<longrightarrow>
        (\<exists>p s'. parse_any K key (Seq vs) s = Inr (p, Seq vs, s')))"
proof -
  let ?s1 = "s\<lparr>parent_key := Some key\<rparr>"
  let ?fq = "key = ''suggestions''"
  have any: "parse_any K key (Seq vs) s =
      (case parse_list K key vs s of Inl e \<Rightarrow> Inl e | Inr (n, s') \<Rightarrow> Inr (One n, Seq vs, s'))"
    using np by simp
  have pre: "prefix ?s1 = prefix s"
    by (simp add: prefix_def newline_indent_def indent_def)
  have ni_up: "newline_indent (increase_level ?s1) = newline_indent (s\<lparr>level := level s + 1\<rparr>)"
    by (rule newline_indent_level) (simp add: increase_level_def)
  have inline: "\<exists>ts. parse_any K key (Seq vs) s =
           Inr (One (ListNode (SyntaxToken (Str key) (Some (prefix s)) None) (LeftBracket None)
                       (map Token ts) (RightBracket None) False),
                Seq vs, s\<lparr>parent_key := Some key, latest_node := Some ListNode_class\<rparr>)
          \<and> map tprefix ts = map (\<lambda>j. if j = 0 then None else Some '' '') [0..<length vs]
          \<and> list_all2 (\<lambda>v t. parse_token K key v ?fq (tprefix t) None = Inr t) vs ts
          \<and> (?fq \<or> key \<in> set (QUOTED_LITERAL_KEYS K) \<or> key \<notin> set (EXPR_BLOCK_KEYS K)
               \<longrightarrow> map tvalue ts = vs)"
    if len: "length vs < 5" and sc: "\<forall>v\<in>set vs. (\<exists>x. v = Str x) \<or> ((\<exists>i. v = Num i) \<and>
          (?fq \<or> key \<in> set (QUOTED_LITERAL_KEYS K) \<or> key \<notin> set (EXPR_BLOCK_KEYS K)))"
  proof -
    from inline_items_scalars [OF sc, of 0] obtain ts where
      ts: "inline_items K key ?fq 0 vs = Inr (map Token ts)"
          "map tprefix ts = map (\<lambda>j. if j = 0 then None else Some '' '') [0..<0 + length vs]"
          "list_all2 (\<lambda>v t. parse_token K key v ?fq (tprefix t) None = Inr t) vs ts"
      by blast
    from sc have pm: "(case vs of [] \<Rightarrow> False | v # _ \<Rightarrow> \<not> is_str_or_int v) = False"
      by (cases vs) auto
    have "parse_list K key vs s =
        Inr (ListNode (SyntaxToken (Str key) (Some (prefix s)) None) (LeftBracket None)
               (map Token ts) (RightBracket None) False,
             s\<lparr>parent_key := Some key, latest_node := Some ListNode_class\<rparr>)"
      unfolding parse_list_def Let_def pm pre using len ts(1) by simp
    moreover have "map tprefix ts = map (\<lambda>j. if j = 0 then None else Some '' '') [0..<length vs]"
      using ts(2) by simp
    moreover have "?fq \<or> key \<in> set (QUOTED_LITERAL_KEYS K) \<or> key \<notin> set (EXPR_BLOCK_KEYS K)
               \<longrightarrow> map tvalue ts = vs"
      using token_values [OF ts(3)] by blast
    ultimately show ?thesis unfolding any using ts(3) by auto
  qed
  have multiline: "\<exists>ts. parse_any K key (Seq vs) s =
           Inr (One (ListNode (SyntaxToken (Str key) (Some (prefix s)) None) (LeftBracket None)
                       (map Token ts) (RightBracket (Some (newline_indent s))) True),
                Seq vs, s\<lparr>parent_key := Some key, latest_node := Some ListNode_class\<rparr>)
          \<and> map tprefix ts
              = replicate (length vs) (Some (newline_indent (s\<lparr>level := level s + 1\<rparr>)))
          \<and> list_all2 (\<lambda>v t. parse_token K key v ?fq (tprefix t) None = Inr t) vs ts
          \<and> (?fq \<or> key \<in> set (QUOTED_LITERAL_KEYS K) \<or> key \<notin> set (EXPR_BLOCK_KEYS K)
               \<longrightarrow> map tvalue ts = vs)"
    if len: "5 \<le> length vs" and sc: "\<forall>v\<in>set vs. (\<exists>x. v = Str x) \<or> ((\<exists>i. v = Num i) \<and>
          (?fq \<or> key \<in> set (QUOTED_LITERAL_KEYS K) \<or> key \<notin> set (EXPR_BLOCK_KEYS K)))"
  proof -
    from multiline_items_scalars [OF sc, of "increase_level ?s1"] obtain ts where
      ts: "multiline_items K key ?fq False vs (increase_level ?s1)
             = Inr (map Token ts, increase_level ?s1)"
          "map tprefix ts = replicate (length vs) (Some (newline_indent (increase_level ?s1)))"
          "list_all2 (\<lambda>v t. parse_token K key v ?fq (tprefix t) None = Inr t) vs ts"
      by blast
    from sc have pm: "(case vs of [] \<Rightarrow> False | v # _ \<Rightarrow> \<not> is_str_or_int v) = False"
      by (cases vs) auto
    have st: "(decrease_level (increase_level ?s1))\<lparr>latest_node := Some ListNode_class\<rparr>
        = s\<lparr>parent_key := Some key, latest_node := Some ListNode_class\<rparr>"
      by (simp add: increase_level_def decrease_level_def)
    have nd: "newline_indent (decrease_level (increase_level ?s1)) = newline_indent s"
      by (rule newline_indent_level) (simp add: increase_level_def decrease_level_def)
    have "parse_list K key vs s =
        Inr (ListNode (SyntaxToken (Str key) (Some (prefix s)) None) (LeftBracket None)
               (map Token ts) (RightBracket (Some (newline_indent s))) True,
             s\<lparr>parent_key := Some key, latest_node := Some ListNode_class\<rparr>)"
      unfolding parse_list_def Let_def pm pre using len ts(1) by (simp add: st nd)
    moreover have "map tprefix ts
        = replicate (length vs) (Some (newline_indent (s\<lparr>level := level s + 1\<rparr>)))"
      using ts(2) by (simp only: ni_up)
    moreover have "?fq \<or> key \<in> set (QUOTED_LITERAL_KEYS K) \<or> key \<notin> set (EXPR_BLOCK_KEYS K)
               \<longrightarrow> map tvalue ts = vs"
      using token_values [OF ts(3)] by blast
    ultimately show ?thesis unfolding any using ts(3) by auto
  qed
  have pairs: "\<exists>its. p = One (ListNode (SyntaxToken (Str key) (Some (prefix s)) None) (LeftBracket None)
                              its (RightBracket (Some (newline_indent s))) True)
              \<and> list_all2 (\<lambda>v i. \<exists>k x tok. v = Dict [(k, x)]
                    \<and> parse_token K k x (key = ''filters'') None None = Inr tok
                    \<and> i = PairNode (SyntaxToken (Str k)
                            (Some (newline_indent (s\<lparr>level := level s + 1\<rparr>))) None) tok) vs its
              \<and> v' = Seq vs
              \<and> s' = s\<lparr>parent_key := Some key, latest_node := Some ListNode_class\<rparr>"
    if ne: "vs \<noteq> []" and hd: "\<not> is_str_or_int (hd vs)"
      and r: "parse_any K key (Seq vs) s = Inr (p, v', s')" for p v' s'
  proof -
    from ne hd have pm: "(case vs of [] \<Rightarrow> False | v # _ \<Rightarrow> \<not> is_str_or_int v) = True"
      by (cases vs) auto
    from r obtain n where pl: "parse_list K key vs s = Inr (n, s')" and p: "p = One n"
      and v': "v' = Seq vs"
      unfolding any by (auto split: sum.splits)
    from pl obtain its s2 where
      m: "multiline_items K key ?fq True vs (increase_level ?s1) = Inr (its, s2)"
      and n: "n = ListNode (SyntaxToken (Str key) (Some (prefix s)) None) (LeftBracket None)
                    its (RightBracket (Some (newline_indent (decrease_level s2)))) True"
      unfolding parse_list_def Let_def pm pre by (auto split: sum.splits)
    from multiline_items_level [OF m] have "level s2 = level s + 1"
      by (simp add: increase_level_def)
    then have nd: "newline_indent (decrease_level s2) = newline_indent s"
      by (intro newline_indent_level) (simp add: decrease_level_def)
    have pk: "(parent_key (increase_level ?s1) = Some ''filters'') = (key = ''filters'')"
      by (simp add: increase_level_def)
    have "list_all2 (\<lambda>v i. \<exists>k x tok. v = Dict [(k, x)]
        \<and> parse_token K k x (parent_key (increase_level ?s1) = Some ''filters'') None None = Inr tok
        \<and> i = PairNode (SyntaxToken (Str k) (Some (newline_indent (increase_level ?s1))) None) tok)
        vs its"
      by (rule multiline_items_pairs [OF m]) (simp add: increase_level_def)
    then have items: "list_all2 (\<lambda>v i. \<exists>k x tok. v = Dict [(k, x)]
        \<and> parse_token K k x (key = ''filters'') None None = Inr tok
        \<and> i = PairNode (SyntaxToken (Str k)
                (Some (newline_indent (s\<lparr>level := level s + 1\<rparr>))) None) tok) vs its"
      by (simp only: pk ni_up)
    from parse_list_level [OF pl] parse_list_latest_node [OF pl]
    have "s' = s\<lparr>parent_key := Some key, latest_node := Some ListNode_class\<rparr>"
      by (cases s; cases s'; simp)
    with p n nd items v' show ?thesis by simp
  qed
  have total: "\<exists>p s'. parse_any K key (Seq vs) s = Inr (p, Seq vs, s')"
    if ne: "vs \<noteq> []" and ds: "\<forall>v\<in>set vs. \<exists>k x. v = Dict [(k, Str x)]"
  proof -
    from ne ds have pm: "(case vs of [] \<Rightarrow> False | v # _ \<Rightarrow> \<not> is_str_or_int v) = True"
      by (cases vs) auto
    from multiline_items_pairs_total [OF ds] obtain its s2 where
      "multiline_items K key ?fq True vs (increase_level ?s1) = Inr (its, s2)" by blast
    then have "\<exists>n s'. parse_list K key vs s = Inr (n, s')"
      unfolding parse_list_def Let_def pm by simp
    then show ?thesis unfolding any by auto
  qed
  from inline multiline pairs total show ?thesis by blast
qed

theorem list_layout_threshold_witness:
  "(\<exists>ts. parse_any sample_keys ''fields'' (Seq [Str ''a'', Str ''b'', Str ''c'', Str ''d'']) parser_init =
       Inr (One (ListNode (SyntaxToken (Str ''fields'') (Some (prefix parser_init)) None)
                   (LeftBracket None) (map Token ts) (RightBracket None) False),
            Seq [Str ''a'', Str ''b'', Str ''c'', Str ''d''],
            parser_init\<lparr>parent_key := Some ''fields'', latest_node := Some ListNode_class\<rparr>)
      \<and> map tprefix ts = [None, Some '' '', Some '' '', Some '' '']
      \<and> map tvalue ts = [Str ''a'', Str ''b'', Str ''c'', Str ''d''])
 \<and> (\<exists>ts. parse_any sample_keys ''fields''
         (Seq [Str ''a'', Num 2, Str ''c'', Str ''d'', Str ''e'']) parser_init =
       Inr (One (ListNode (SyntaxToken (Str ''fields'') (Some (prefix parser_init)) None)
                   (LeftBracket None) (map Token ts)
                   (RightBracket (Some (newline_indent parser_init))) True),
            Seq [Str ''a'', Num 2, Str ''c'', Str ''d'', Str ''e''],
            parser_init\<lparr>parent_key := Some ''fields'', latest_node := Some ListNode_class\<rparr>)
      \<and> map tprefix ts
          = replicate 5 (Some (newline_indent (parser_init\<lparr>level := level parser_init + 1\<rparr>)))
      \<and> map tvalue ts = [Str ''a'', Num 2, Str ''c'', Str ''d'', Str ''e''])
 \<and> (\<exists>its. parse_any sample_keys ''fields'' (Seq [Dict [(''a'', Str ''b'')]]) parser_init =
       Inr (One (ListNode (SyntaxToken (Str ''fields'') (Some (prefix parser_init)) None)
                   (LeftBracket None) its
                   (RightBracket (Some (newline_indent parser_init))) True),
            Seq [Dict [(''a'', Str ''b'')]],
            parser_init\<lparr>parent_key := Some ''fields'', latest_node := Some ListNode_class\<rparr>)
      \<and> list_all2 (\<lambda>v i. \<exists>k x tok. v = Dict [(k, x)]
            \<and> parse_token sample_keys k x (''fields'' = ''filters'') None None = Inr tok
            \<and> i = PairNode (SyntaxToken (Str k)
                    (Some (newline_indent (parser_init\<lparr>level := level parser_init + 1\<rparr>))) None) tok)
          [Dict [(''a'', Str ''b'')]] its)"
proof -
  have np: "is_plural_key sample_keys parser_init ''fields'' = Inr False"
    by code_simp
  have ne: "''fields'' \<notin> set (EXPR_BLOCK_KEYS sample_keys)"
    by (simp add: sample_keys_def)
  note T = list_layout_threshold [OF np]
  have "\<exists>ts. parse_any sample_keys ''fields'' (Seq [Str ''a'', Str ''b'', Str ''c'', Str ''d'']) parser_init =
       Inr (One (ListNode (SyntaxToken (Str ''fields'') (Some (prefix parser_init)) None)
                   (LeftBracket None) (map Token ts) (RightBracket None) False),
            Seq [Str ''a'', Str ''b'', Str ''c'', Str ''d''],
            parser_init\<lparr>parent_key := Some ''fields'', latest_node := Some ListNode_class\<rparr>)
      \<and> map tprefix ts = map (\<lambda>j. if j = 0 then None else Some '' '')
            [0..<length [Str ''a'', Str ''b'', Str ''c'', Str ''d'']]
      \<and> list_all2 (\<lambda>v t. parse_token sample_keys ''fields'' v (''fields'' = ''suggestions'')
            (tprefix t) None = Inr t) [Str ''a'', Str ''b'', Str ''c'', Str ''d''] ts
      \<and> (''fields'' = ''suggestions'' \<or> ''fields'' \<in> set (QUOTED_LITERAL_KEYS sample_keys)
            \<or> ''fields'' \<notin> set (EXPR_BLOCK_KEYS sample_keys)
          \<longrightarrow> map tvalue ts = [Str ''a'', Str ''b'', Str ''c'', Str ''d''])"
    by (rule T [THEN conjunct1, THEN mp]) simp
  then obtain ts where
    a: "parse_any sample_keys ''fields'' (Seq [Str ''a'', Str ''b'', Str ''c'', Str ''d'']) parser_init =
       Inr (One (ListNode (SyntaxToken (Str ''fields'') (Some (prefix parser_init)) None)
                   (LeftBracket None) (map Token ts) (RightBracket None) False),
            Seq [Str ''a'', Str ''b'', Str ''c'', Str ''d''],
            parser_init\<lparr>parent_key := Some ''fields'', latest_node := Some ListNode_class\<rparr>)"
    and b: "map tprefix ts = map (\<lambda>j. if j = 0 then None else Some '' '')
            [0..<length [Str ''a'', Str ''b'', Str ''c'', Str ''d'']]"
    and d: "''fields'' = ''suggestions'' \<or> ''fields'' \<in> set (QUOTED_LITERAL_KEYS sample_keys)
            \<or> ''fields'' \<notin> set (EXPR_BLOCK_KEYS sample_keys)
          \<longrightarrow> map tvalue ts = [Str ''a'', Str ''b'', Str ''c'', Str ''d'']"
    by (elim exE conjE) (rule that)
  from b have b': "map tprefix ts = [None, Some '' '', Some '' '', Some '' '']"
    by simp
  from ne have d': "map tvalue ts = [Str ''a'', Str ''b'', Str ''c'', Str ''d'']"
    by (intro d [THEN mp] disjI2)
  from a b' d' have four: "\<exists>ts. parse_any sample_keys ''fields'' (Seq [Str ''a'', Str ''b'', Str ''c'', Str ''d'']) parser_init =
       Inr (One (ListNode (SyntaxToken (Str ''fields'') (Some (prefix parser_init)) None)
                   (LeftBracket None) (map Token ts) (RightBracket None) False),
            Seq [Str ''a'', Str ''b'', Str ''c'', Str ''d''],
            parser_init\<lparr>parent_key := Some ''fields'', latest_node := Some ListNode_class\<rparr>)
      \<and> map tprefix ts = [None, Some '' '', Some '' '', Some '' '']
      \<and> map tvalue ts = [Str ''a'', Str ''b'', Str ''c'', Str ''d'']"
    by (intro exI [of _ ts] conjI)
  have "\<exists>ts. parse_any sample_keys ''fields''
         (Seq [Str ''a'', Num 2, Str ''c'', Str ''d'', Str ''e'']) parser_init =
       Inr (One (ListNode (SyntaxToken (Str ''fields'') (Some (prefix parser_init)) None)
                   (LeftBracket None) (map Token ts)
                   (RightBracket (Some (newline_indent parser_init))) True),
            Seq [Str ''a'', Num 2, Str ''c'', Str ''d'', Str ''e''],
            parser_init\<lparr>parent_key := Some ''fields'', latest_node := Some ListNode_class\<rparr>)
      \<and> map tprefix ts
          = replicate (length [Str ''a'', Num 2, Str ''c'', Str ''d'', Str ''e''])
              (Some (newline_indent (parser_init\<lparr>level := level parser_init + 1\<rparr>)))
      \<and> list_all2 (\<lambda>v t. parse_token sample_keys ''fields'' v (''fields'' = ''suggestions'')
            (tprefix t) None = Inr t) [Str ''a'', Num 2, Str ''c'', Str ''d'', Str ''e''] ts
      \<and> (''fields'' = ''suggestions'' \<or> ''fields'' \<in> set (QUOTED_LITERAL_KEYS sample_keys)
            \<or> ''fields'' \<notin> set (EXPR_BLOCK_KEYS sample_keys)
          \<longrightarrow> map tvalue ts = [Str ''a'', Num 2, Str ''c'', Str ''d'', Str ''e''])"
    by (rule T [THEN conjunct2, THEN conjunct1, THEN mp]) (simp add: ne)
  then obtain us where
    a5: "parse_any sample_keys ''fields''
         (Seq [Str ''a'', Num 2, Str ''c'', Str ''d'', Str ''e'']) parser_init =
       Inr (One (ListNode (SyntaxToken (Str ''fields'') (Some (prefix parser_init)) None)
                   (LeftBracket None) (map Token us)
                   (RightBracket (Some (newline_indent parser_init))) True),
            Seq [Str ''a'', Num 2, Str ''c'', Str ''d'', Str ''e''],
            parser_init\<lparr>parent_key := Some ''fields'', latest_node := Some ListNode_class\<rparr>)"
    and b5: "map tprefix us
          = replicate (length [Str ''a'', Num 2, Str ''c'', Str ''d'', Str ''e''])
              (Some (newline_indent (parser_init\<lparr>level := level parser_init + 1\<rparr>)))"
    and d5: "''fields'' = ''suggestions'' \<or> ''fields'' \<in> set (QUOTED_LITERAL_KEYS sample_keys)
            \<or> ''fields'' \<notin> set (EXPR_BLOCK_KEYS sample_keys)
          \<longrightarrow> map tvalue us = [Str ''a'', Num 2, Str ''c'', Str ''d'', Str ''e'']"
    by (elim exE conjE) (rule that)
  have len5: "length [Str ''a'', Num 2, Str ''c'', Str ''d'', Str ''e''] = 5" by simp
  from b5 have b5': "map tprefix us
      = replicate 5 (Some (newline_indent (parser_init\<lparr>level := level parser_init + 1\<rparr>)))"
    unfolding len5 .
  from ne have d5': "map tvalue us = [Str ''a'', Num 2, Str ''c'', Str ''d'', Str ''e'']"
    by (intro d5 [THEN mp] disjI2)
  from a5 b5' d5' have five: "\<exists>ts. parse_any sample_keys ''fields''
         (Seq [Str ''a'', Num 2, Str ''c'', Str ''d'', Str ''e'']) parser_init =
       Inr (One (ListNode (SyntaxToken (Str ''fields'') (Some (prefix parser_init)) None)
                   (LeftBracket None) (map Token ts)
                   (RightBracket (Some (newline_indent parser_init))) True),
            Seq [Str ''a'', Num 2, Str ''c'', Str ''d'', Str ''e''],
            parser_init\<lparr>parent_key := Some ''fields'', latest_node := Some ListNode_class\<rparr>)
      \<and> map tprefix ts
          = replicate 5 (Some (newline_indent (parser_init\<lparr>level := level parser_init + 1\<rparr>)))
      \<and> map tvalue ts = [Str ''a'', Num 2, Str ''c'', Str ''d'', Str ''e'']"
    by (intro exI [of _ us] conjI)
  obtain p s' where r: "parse_any sample_keys ''fields'' (Seq [Dict [(''a'', Str ''b'')]]) parser_init
      = Inr (p, Seq [Dict [(''a'', Str ''b'')]], s')"
    using T [of "[Dict [(''a'', Str ''b'')]]", THEN conjunct2, THEN conjunct2, THEN conjunct2]
    by auto
  have "\<forall>p v' s'. parse_any sample_keys ''fields'' (Seq [Dict [(''a'', Str ''b'')]]) parser_init
        = Inr (p, v', s') \<longrightarrow>
      (\<exists>its. p = One (ListNode (SyntaxToken (Str ''fields'') (Some (prefix parser_init)) None)
                        (LeftBracket None) its (RightBracket (Some (newline_indent parser_init))) True)
         \<and> list_all2 (\<lambda>v i. \<exists>k x tok. v = Dict [(k, x)]
            \<and> parse_token sample_keys k x (''fields'' = ''filters'') None None = Inr tok
            \<and> i = PairNode (SyntaxToken (Str k)
                    (Some (newline_indent (parser_init\<lparr>level := level parser_init + 1\<rparr>))) None) tok)
          [Dict [(''a'', Str ''b'')]] its
         \<and> v' = Seq [Dict [(''a'', Str ''b'')]]
         \<and> s' = parser_init\<lparr>parent_key := Some ''fields'', latest_node := Some ListNode_class\<rparr>)"
    by (rule T [THEN conjunct2, THEN conjunct2, THEN conjunct1, THEN mp]) simp
  from this [rule_format, OF r] obtain its where
    pe: "p = One (ListNode (SyntaxToken (Str ''fields'') (Some (prefix parser_init)) None)
                        (LeftBracket None) its (RightBracket (Some (newline_indent parser_init))) True)"
    and l: "list_all2 (\<lambda>v i. \<exists>k x tok. v = Dict [(k, x)]
            \<and> parse_token sample_keys k x (''fields'' = ''filters'') None None = Inr tok
            \<and> i = PairNode (SyntaxToken (Str k)
                    (Some (newline_indent (parser_init\<lparr>level := level parser_init + 1\<rparr>))) None) tok)
          [Dict [(''a'', Str ''b'')]] its"
    and se: "s' = parser_init\<lparr>parent_key := Some ''fields'', latest_node := Some ListNode_class\<rparr>"
    by (elim exE conjE) (rule that)
  from r have "parse_any sample_keys ''fields'' (Seq [Dict [(''a'', Str ''b'')]]) parser_init =
       Inr (One (ListNode (SyntaxToken (Str ''fields'') (Some (prefix parser_init)) None)
                   (LeftBracket None) its
                   (RightBracket (Some (newline_indent parser_init))) True),
            Seq [Dict [(''a'', Str ''b'')]],
            parser_init\<lparr>parent_key := Some ''fields'', latest_node := Some ListNode_class\<rparr>)"
    unfolding pe se .
  with l have pairs: "\<exists>its. parse_any sample_keys ''fields'' (Seq [Dict [(''a'', Str ''b'')]]) parser_init =
       Inr (One (ListNode (SyntaxToken (Str ''fields'') (Some (prefix parser_init)) None)
                   (LeftBracket None) its
                   (RightBracket (Some (newline_indent parser_init))) True),
            Seq [Dict [(''a'', Str ''b'')]],
            parser_init\<lparr>parent_key := Some ''fields'', latest_node := Some ListNode_class\<rparr>)
      \<and> list_all2 (\<lambda>v i. \<exists>k x tok. v = Dict [(k, x)]
            \<and> parse_token sample_keys k x (''fields'' = ''filters'') None None = Inr tok
            \<and> i = PairNode (SyntaxToken (Str k)
                    (Some (newline_indent (parser_init\<lparr>level := level parser_init + 1\<rparr>))) None) tok)
          [Dict [(''a'', Str ''b'')]] its"
    by (intro exI [of _ its] conjI)
  from four five pairs show ?thesis by (intro conjI)
qed

text \<open>
  Four integers under an expression key that is not a plural key: \<^verbatim>\<open>value.strip()\<close> raises
  on the first of them, and no list is emitted.
\<close>

theorem integers_under_expression_key_counterexample:
  "is_plural_key sample_keys parser_init ''sql'' = Inr False
   \<and> parse_any sample_keys ''sql'' (Seq [Num 1, Num 2, Num 3, Num 4]) parser_init
       = Inl AttributeError
   \<and> parse sample_keys [(''sql'', Seq [Num 1, Num 2, Num 3, Num 4])] parser_init
       = Inl AttributeError"
  by code_simp

section \<open>A plural key at the top of the document\<close>








section \<open>The depth of the visitor\<close>

lemma update_tree_depth: "update_tree K target u s = (r, s') \<Longrightarrow> depth s' = depth s"
  by (cases u) (auto simp: Let_def split: if_splits list.splits option.splits pyval.splits)

lemma depth_restored:
  shows "\<forall>r s'. accept K n s = (Inr r, s') \<longrightarrow> depth s' = depth s"
    and "\<forall>c s'. visit_container K its s1 = (Inr c, s') \<longrightarrow> depth s' = depth s1"
    and "\<forall>c' s'. container_loop K its2 c2 s2 = (Inr c', s') \<longrightarrow> depth s' = depth s2"
    and "\<forall>xs s'. list_loop K its3 s3 = (Inr xs, s') \<longrightarrow> depth s' = depth s3"
proof (induction K n s and K its s1 and K its2 c2 s2 and K its3 s3
    rule: accept_visit_container_container_loop_list_loop.induct)
  case (1 K t s)
  show ?case by (auto split: sum.splits)
next
  case (2 K ty v s)
  show ?case by (auto split: sum.splits)
next
  case (3 K ty lb its rb tc s)
  show ?case
  proof (intro allI impI)
    fix r s'
    assume r: "accept K (ListNode ty lb its rb tc) s = (Inr r, s')"
    then obtain k xs where k: "visit_token ty = Inr k" and l: "list_loop K its s = (Inr xs, s')"
      by (auto simp del: visit_container.simps visit_token.simps split: sum.splits prod.splits)
    from "3.IH" [OF k] l show "depth s' = depth s" by blast
  qed
next
  case (4 K ty lb rb nm its s)
  show ?case
  proof (intro allI impI)
    fix r s'
    assume r: "accept K (BlockNode ty lb rb nm its) s = (Inr r, s')"
    then obtain c where "visit_container K its s = (Inr c, s')"
      by (auto simp del: visit_container.simps visit_token.simps split: sum.splits prod.splits)
    with "4.IH" show "depth s' = depth s" by blast
  qed
next
  case (5 K its s)
  show ?case
  proof (intro allI impI)
    fix c s'
    assume r: "visit_container K its s = (Inr c, s')"
    show "depth s' = depth s"
    proof (cases "0 < length its")
      case True
      with r obtain s2 where l: "container_loop K its [] (s\<lparr>depth := depth s + 1\<rparr>) = (Inr c, s2)"
        and s': "s' = s2\<lparr>depth := depth s2 - 1\<rparr>"
        by (auto split: sum.splits prod.splits)
      from "5.IH" [OF True] l have "depth s2 = depth s + 1" by fastforce
      with s' show ?thesis by simp
    next
      case False
      with r show ?thesis by simp
    qed
  qed
next
  case (6 K c s)
  show ?case by simp
next
  case (7 K item rest c s)
  show ?case
  proof (intro allI impI)
    fix c' s'
    assume r: "container_loop K (item # rest) c s = (Inr c', s')"
    then obtain u sa ca sb where a: "accept K item s = (Inr u, sa)"
      and b: "update_tree K c u sa = (Inr ca, sb)"
      and l: "container_loop K rest ca sb = (Inr c', s')"
      by (auto simp del: visit_container.simps update_tree.simps split: sum.splits prod.splits)
    from "7.IH"(1) a have d1: "depth sa = depth s" by blast
    from update_tree_depth [OF b] have d2: "depth sb = depth sa" .
    from "7.IH"(2) [OF a [symmetric] refl b [symmetric] refl] l have "depth s' = depth sb" by blast
    with d1 d2 show "depth s' = depth s" by simp
  qed
next
  case (8 K s)
  show ?case by simp
next
  case (9 K item rest s)
  show ?case
  proof (intro allI impI)
    fix xs s'
    assume r: "list_loop K (item # rest) s = (Inr xs, s')"
    then obtain x sa ys where a: "accept K item s = (Inr x, sa)"
      and l: "list_loop K rest sa = (Inr ys, s')"
      by (auto simp del: visit_container.simps split: sum.splits prod.splits)
    from "9.IH"(1) a have d1: "depth sa = depth s" by blast
    from "9.IH"(2) [OF a [symmetric] refl] l have "depth s' = depth sa" by blast
    with d1 show "depth s' = depth s" by simp
  qed
qed

text \<open>
  C10, as the code has it. Every call of \<^verbatim>\<open>visit_container\<close> that returns leaves \<^verbatim>\<open>depth\<close> at
  the value it had before the call. So after a call of \<^verbatim>\<open>visit\<close> on a fresh visitor that
  returns, \<^verbatim>\<open>depth\<close> is \<open>-1\<close> again, and a further \<^verbatim>\<open>visit\<close> on the same visitor merges the
  top-level keys of its document at depth 0.
\<close>

theorem visit_restores_depth:
  assumes "visit K doc visitor_init = (Inr m, s')"
  shows "depth s' = - 1
    \<and> (\<forall>its s c t. visit_container K its s = (Inr c, t) \<longrightarrow> depth t = depth s)
    \<and> (\<forall>its. its \<noteq> [] \<longrightarrow>
          visit K (DocumentNode its) s' =
            (case container_loop K its [] (s'\<lparr>depth := 0\<rparr>) of
               (Inl e, t) \<Rightarrow> (Inl e, t)
             | (Inr c, t) \<Rightarrow> (Inr c, t\<lparr>depth := depth t - 1\<rparr>)))"
proof -
  obtain its where doc: "doc = DocumentNode its" by (cases doc)
  with assms have "visit_container K its visitor_init = (Inr m, s')"
    by (simp del: visit_container.simps)
  with depth_restored(2) have d: "depth s' = - 1"
    by (fastforce simp: visitor_init_def)
  have g: "\<forall>its s c t. visit_container K its s = (Inr c, t) \<longrightarrow> depth t = depth s"
    using depth_restored(2) by blast
  from d have "\<forall>its. its \<noteq> [] \<longrightarrow>
          visit K (DocumentNode its) s' =
            (case container_loop K its [] (s'\<lparr>depth := 0\<rparr>) of
               (Inl e, t) \<Rightarrow> (Inl e, t)
             | (Inr c, t) \<Rightarrow> (Inr c, t\<lparr>depth := depth t - 1\<rparr>))"
    by simp
  with d g show ?thesis by blast
qed

theorem visit_restores_depth_witness:
  "depth (snd (visit sample_keys
      (DocumentNode
         [PairNode (SyntaxToken (Str ''label'') None None) (SyntaxToken (Str ''a'') None None),
          BlockNode (SyntaxToken (Str ''view'') None None) (LeftCurlyBrace None)
            (RightCurlyBrace None) None
            [PairNode (SyntaxToken (Str ''label'') None None) (SyntaxToken (Str ''b'') None None)],
          PairNode (SyntaxToken (Str ''label'') None None) (SyntaxToken (Str ''c'') None None)])
      visitor_init)) = - 1"
proof -
  have run: "visit sample_keys
      (DocumentNode
         [PairNode (SyntaxToken (Str ''label'') None None) (SyntaxToken (Str ''a'') None None),
          BlockNode (SyntaxToken (Str ''view'') None None) (LeftCurlyBrace None)
            (RightCurlyBrace None) None
            [PairNode (SyntaxToken (Str ''label'') None None) (SyntaxToken (Str ''b'') None None)],
          PairNode (SyntaxToken (Str ''label'') None None) (SyntaxToken (Str ''c'') None None)])
      visitor_init
    = (Inr [(''label'', Str ''c''), (''views'', Seq [Dict [(''label'', Str ''b'')]])],
       \<lparr>depth = - 1, warnings = [''label'']\<rparr>)"
    by code_simp
  from visit_restores_depth [OF run] show ?thesis
    unfolding run by simp
qed

text \<open>
  A call that raises leaves \<^verbatim>\<open>depth\<close> as it is at the \<^verbatim>\<open>raise\<close>: after the conflict inside
  the block the visitor's depth is 1, not \<open>-1\<close>.
\<close>

theorem depth_after_conflict_counterexample:
  "visit sample_keys
      (DocumentNode
         [BlockNode (SyntaxToken (Str ''explore'') None None) (LeftCurlyBrace None)
            (RightCurlyBrace None) None
            [PairNode (SyntaxToken (Str ''label'') None None) (SyntaxToken (Str ''a'') None None),
             PairNode (SyntaxToken (Str ''label'') None None) (SyntaxToken (Str ''b'') None None)]])
      visitor_init
    = (Inl KeyError_conflict, \<lparr>depth = 1, warnings = []\<rparr>)"
  by code_simp

section \<open>The input after the build\<close>

lemma is_plural_key_True:
  "is_plural_key K s key = Inr True \<Longrightarrow> singularize K key \<in> set (PLURAL_KEYS K)"
  by (auto simp: is_plural_key_def Let_def split: if_splits option.splits)

lemma is_plural_key_False:
  "is_plural_key K s key = Inr False \<Longrightarrow>
     singularize K key \<notin> set (PLURAL_KEYS K) \<or> singularize K key = ''allowed_value''"
  by (auto simp: is_plural_key_def Let_def split: if_splits option.splits)

lemma names_popped_build:
  shows "\<forall>p v' s'. parse_any K key v s = Inr (p, v', s') \<longrightarrow> names_popped K key v v'"
    and "\<forall>ns vs' s'. expand_list K key2 vs s2 = Inr (ns, vs', s') \<longrightarrow>
           names_popped_list K (singularize K key2) vs vs'"
    and "\<forall>ps vs' s'. expand_loop K key3 vs3 s3 = Inr (ps, vs', s') \<longrightarrow>
           names_popped_list K key3 vs3 vs'"
    and "\<forall>n d' s'. parse_block K key4 d nm s4 = Inr (n, d', s') \<longrightarrow> names_popped_dict K d d'"
    and "\<forall>ps d' s'. parse_items K d5 s5 = Inr (ps, d', s') \<longrightarrow> names_popped_dict K d5 d'"
proof -
  note R = parser_induct [where
      ?P1.0 = "\<lambda>K key v s p v' s'. names_popped K key v v'" and
      ?P2.0 = "\<lambda>K key vs s ns vs' s'. names_popped_list K (singularize K key) vs vs'" and
      ?P3.0 = "\<lambda>K key vs s ps vs' s'. names_popped_list K key vs vs'" and
      ?P4.0 = "\<lambda>K key d nm s n d' s'. names_popped_dict K d d'" and
      ?P5.0 = "\<lambda>K d s ps d' s'. names_popped_dict K d d'"]
  have plural: "names_popped K key (Seq vs) (Seq vs')"
    if "is_plural_key K s key = Inr True" "names_popped_list K (singularize K key) vs vs'"
    for K key vs vs' s
    using that is_plural_key_True [of K s key] by auto
  have list: "names_popped K key (Seq vs) (Seq vs)"
    if "is_plural_key K s key = Inr False" for K key vs s
    using is_plural_key_False [OF that] by auto
  have block: "names_popped K key (Dict d) (Dict d2)"
    if "(nm, d1) = (if key \<in> set (KEYS_WITH_NAME_FIELDS K) \<or> \<not> has_key d ''name'' then (None, d)
                  else (map_of d ''name'', dict_pop d ''name''))"
      "names_popped_dict K d1 d2"
    for K key d nm d1 d2
    using that by (auto split: if_splits)
  show "\<forall>p v' s'. parse_any K key v s = Inr (p, v', s') \<longrightarrow> names_popped K key v v'"
    by (rule R(1); (assumption | (erule plural; assumption) | erule list
         | (erule block; assumption) | simp del: expand_list.simps parse_block.simps))
  show "\<forall>ns vs' s'. expand_list K key2 vs s2 = Inr (ns, vs', s') \<longrightarrow>
           names_popped_list K (singularize K key2) vs vs'"
    by (rule R(2); (assumption | (erule plural; assumption) | erule list
         | (erule block; assumption) | simp del: expand_list.simps parse_block.simps))
  show "\<forall>ps vs' s'. expand_loop K key3 vs3 s3 = Inr (ps, vs', s') \<longrightarrow>
           names_popped_list K key3 vs3 vs'"
    by (rule R(3); (assumption | (erule plural; assumption) | erule list
         | (erule block; assumption) | simp del: expand_list.simps parse_block.simps))
  show "\<forall>n d' s'. parse_block K key4 d nm s4 = Inr (n, d', s') \<longrightarrow> names_popped_dict K d d'"
    by (rule R(4); (assumption | (erule plural; assumption) | erule list
         | (erule block; assumption) | simp del: expand_list.simps parse_block.simps))
  show "\<forall>ps d' s'. parse_items K d5 s5 = Inr (ps, d', s') \<longrightarrow> names_popped_dict K d5 d'"
    by (rule R(5); (assumption | (erule plural; assumption) | erule list
         | (erule block; assumption) | simp del: expand_list.simps parse_block.simps))
qed

lemma names_popped_no_name:
  shows "names_popped K key v v' \<Longrightarrow> no_name v \<Longrightarrow> v' = v"
    and "names_popped_list K key2 vs vs' \<Longrightarrow> list_all no_name vs \<Longrightarrow> vs' = vs"
    and "names_popped_dict K d d' \<Longrightarrow> list_all (\<lambda>(k, v). no_name v) d \<Longrightarrow> d' = d"
proof (induction K key v v' and K key2 vs vs' and K d d'
    rule: names_popped_names_popped_list_names_popped_dict.induct)
  case (4 K key vs v')
  then show ?case by (auto split: pyval.splits if_splits)
next
  case (5 K key d v')
  then show ?case by (auto split: pyval.splits if_splits)
next
  case (7 K key v vs vs')
  then show ?case by (auto split: list.splits)
next
  case (9 K key v rest d')
  then show ?case by (auto split: list.splits)
qed simp_all

text \<open>
  C8, as the code has it. A build that returns leaves in its input mapping the same keys
  in the same order, and each value as it was except that the \<^verbatim>\<open>name\<close> entry of a nested
  mapping built as a block under a key outside \<^verbatim>\<open>KEYS_WITH_NAME_FIELDS\<close> is gone. An
  input in which no nested mapping has a \<^verbatim>\<open>name\<close> entry is left unchanged.
\<close>

theorem parse_changes_names_only:
  assumes "parse K m s = Inr (doc, m', s')"
  shows "names_popped_dict K m m' \<and> (list_all (\<lambda>(k, v). no_name v) m \<longrightarrow> m' = m)"
proof -
  from assms obtain ps where "parse_items K m s = Inr (ps, m', s')"
    by (auto simp: parse_def split: sum.splits)
  with names_popped_build(5) have r: "names_popped_dict K m m'" by blast
  with names_popped_no_name(3) show ?thesis by blast
qed

theorem parse_changes_names_only_witness:
  "\<exists>doc m' s'.
     parse sample_keys
       [(''name'', Str ''n''),
        (''views'', Seq [Dict [(''label'', Str ''b'')]]),
        (''param'', Dict [(''label'', Str ''p'')])] parser_init = Inr (doc, m', s')
     \<and> names_popped_dict sample_keys
       [(''name'', Str ''n''),
        (''views'', Seq [Dict [(''label'', Str ''b'')]]),
        (''param'', Dict [(''label'', Str ''p'')])] m'
     \<and> list_all (\<lambda>(k, v). no_name v)
       [(''name'', Str ''n''),
        (''views'', Seq [Dict [(''label'', Str ''b'')]]),
        (''param'', Dict [(''label'', Str ''p'')])]
     \<and> m' = [(''name'', Str ''n''),
        (''views'', Seq [Dict [(''label'', Str ''b'')]]),
        (''param'', Dict [(''label'', Str ''p'')])]"
proof -
  have run: "parse sample_keys
      [(''name'', Str ''n''),
       (''views'', Seq [Dict [(''label'', Str ''b'')]]),
       (''param'', Dict [(''label'', Str ''p'')])] parser_init
    = Inr (DocumentNode
        [PairNode (SyntaxToken (Str ''name'') (Some []) None)
           (SyntaxToken (Str ''n'') None None),
         BlockNode (SyntaxToken (Str ''view'') (Some [CHR 0x0A, CHR 0x0A]) None)
           (LeftCurlyBrace (Some [])) (RightCurlyBrace (Some [CHR 0x0A]))
           None
           [PairNode (SyntaxToken (Str ''label'') (Some [CHR 0x0A, CHR '' '', CHR '' '']) None)
              (QuotedSyntaxToken (Str ''b'') None None)],
         BlockNode (SyntaxToken (Str ''param'') (Some [CHR 0x0A, CHR 0x0A]) None)
           (LeftCurlyBrace (Some [])) (RightCurlyBrace (Some [CHR 0x0A]))
           None
           [PairNode (SyntaxToken (Str ''label'') (Some [CHR 0x0A, CHR '' '', CHR '' '']) None)
              (QuotedSyntaxToken (Str ''p'') None None)]],
       [(''name'', Str ''n''),
        (''views'', Seq [Dict [(''label'', Str ''b'')]]),
        (''param'', Dict [(''label'', Str ''p'')])],
       \<lparr>parent_key = Some ''param'', level = 0, latest_node = Some BlockNode_class\<rparr>)"
    by code_simp
  have nn: "list_all (\<lambda>(k, v). no_name v)
       [(''name'', Str ''n''),
        (''views'', Seq [Dict [(''label'', Str ''b'')]]),
        (''param'', Dict [(''label'', Str ''p'')])]"
    by (simp add: has_key_def)
  from parse_changes_names_only [OF run] nn show ?thesis
    unfolding run by blast
qed

text \<open>
  The build of \<^verbatim>\<open>{"view": {"name": "v", "label": "b"}}\<close> returns and leaves the caller's
  mapping as \<^verbatim>\<open>{"view": {"label": "b"}}\<close>.
\<close>

theorem name_popped_from_input_counterexample:
  "map_sum id (\<lambda>r. fst (snd r))
     (parse sample_keys [(''view'', Dict [(''name'', Str ''v''), (''label'', Str ''b'')])]
        parser_init)
   = Inr [(''view'', Dict [(''label'', Str ''b'')])]"
  by code_simp

section \<open>The round trip\<close>

subsection \<open>The visitor on the nodes of one entry\<close>





subsection \<open>Lists of strings and of pairs\<close>












subsection \<open>Mappings in canonical form\<close>

lemma has_key_append: "has_key (acc @ d) k = (has_key acc k \<or> has_key d k)"
  by (auto simp: has_key_def)













end
